theory Spec2Isabelle
  imports Complex_Main "HOL-Library.Sublist"
begin

section \<open>Strings and numbers of the source language\<close>

text \<open>
  A JavaScript string is a sequence of UTF-16 code units. The grader's messages are
  Hebrew, and its regular expressions classify single code units, so a string is
  modelled as the list of its code units. ASCII literals are written through \<open>js\<close>.

  JavaScript numbers are IEEE doubles. The grader only handles integers (sums, points,
  exit codes) and one quotient of two point totals; the model computes them exactly, in
  \<open>int\<close> and \<open>rat\<close>. A double holds every integer up to \<open>2^53\<close> exactly, so the
  model and the source agree on the sums a test can produce; on a longer run of digits
  the source rounds and the model does not. A division whose divisor is zero has no
  finite value in JavaScript (\<open>NaN\<close> or an infinity): \<open>js_div\<close> returns \<open>None\<close> there,
  and a score is a \<open>rat option\<close> whose \<open>None\<close> stands for \<open>NaN\<close>.
\<close>

type_synonym jsstring = "nat list"

definition js :: "string \<Rightarrow> jsstring" where
  "js s = map of_char s"

definition is_digit :: "nat \<Rightarrow> bool" where
  \<comment> \<open>\<open>\d\<close>: the ten ASCII digits\<close>
  "is_digit c = (48 \<le> c \<and> c \<le> 57)"

definition is_word :: "nat \<Rightarrow> bool" where
  \<comment> \<open>\<open>\w\<close>: ASCII letters, digits and the underscore\<close>
  "is_word c = (is_digit c \<or> (65 \<le> c \<and> c \<le> 90) \<or> (97 \<le> c \<and> c \<le> 122) \<or> c = 95)"

definition is_space :: "nat \<Rightarrow> bool" where
  \<comment> \<open>\<open>\s\<close>: the white space and line terminator code units of ECMAScript\<close>
  "is_space c = (c \<in> {9, 10, 11, 12, 13, 32, 160, 5760, 8232, 8233, 8239, 8287, 12288, 65279}
                 \<or> (8192 \<le> c \<and> c \<le> 8202))"

definition is_word_opt :: "nat option \<Rightarrow> bool" where
  \<comment> \<open>the position before the first and after the last code unit counts as a non-word\<close>
  "is_word_opt p = (case p of None \<Rightarrow> False | Some c \<Rightarrow> is_word c)"

definition js_div :: "rat \<Rightarrow> rat \<Rightarrow> rat option" where
  "js_div a b = (if b = 0 then None else Some (a / b))"

definition Math_round :: "rat \<Rightarrow> int" where
  \<comment> \<open>\<open>Math.round\<close>: the nearest integer, a tie going up\<close>
  "Math_round x = \<lfloor>x + 1 / 2\<rfloor>"

function digits_of :: "nat \<Rightarrow> jsstring" where
  "digits_of n = (if n < 10 then [48 + n] else digits_of (n div 10) @ [48 + n mod 10])"
  by pat_completeness auto
termination
  by (relation "measure id") auto

definition Number_toString :: "int \<Rightarrow> jsstring" where
  \<comment> \<open>the decimal form a template literal or \<open>+\<close> gives an integer (below \<open>10^21\<close> in
      absolute value; JavaScript prints larger numbers with an exponent)\<close>
  "Number_toString i = (if i < 0 then 45 # digits_of (nat (- i)) else digits_of (nat i))"

definition digits_value :: "jsstring \<Rightarrow> nat" where
  "digits_value ds = foldl (\<lambda>a c. 10 * a + (c - 48)) 0 ds"

definition parseInt :: "jsstring \<Rightarrow> int option" where
  \<comment> \<open>\<open>parseInt(m, 10)\<close>: leading white space, a sign, then the longest run of digits;
      \<open>None\<close> is \<open>NaN\<close>, the result when the run is empty\<close>
  "parseInt m =
     (let s1 = dropWhile is_space m;
          neg = (s1 \<noteq> [] \<and> hd s1 = 45);
          s2 = (if s1 \<noteq> [] \<and> (hd s1 = 45 \<or> hd s1 = 43) then tl s1 else s1);
          ds = takeWhile is_digit s2
      in if ds = [] then None
         else Some (if neg then - int (digits_value ds) else int (digits_value ds)))"

fun js_includes :: "jsstring \<Rightarrow> jsstring \<Rightarrow> bool" where
  \<comment> \<open>\<open>s.includes(t)\<close>: \<open>t\<close> occurs in \<open>s\<close> as a contiguous run\<close>
  "js_includes [] t = (t = [])"
| "js_includes (c # s) t = (take (length t) (c # s) = t \<or> js_includes s t)"

fun join :: "jsstring list \<Rightarrow> jsstring \<Rightarrow> jsstring" where
  "join [] sep = []"
| "join [x] sep = x"
| "join (x # y # ys) sep = x @ sep @ join (y # ys) sep"

section \<open>Regular expressions\<close>

text \<open>
  The source uses three regular expressions, all built from literals, a starred or
  plussed character class, an optional part, the word boundary, alternation and
  sequence. A cursor is the code unit before the current position (if any) and the
  rest of the text; \<open>rx_match\<close> lists the cursors a backtracking matcher reaches, in
  the order it tries them (greedy first).
\<close>

datatype rx =
    RLit jsstring
  | RStar "nat \<Rightarrow> bool"
  | RPlus "nat \<Rightarrow> bool"
  | ROpt rx
  | RWordB
  | RAlt rx rx
  | RSeq rx rx

type_synonym cursor = "nat option \<times> jsstring"

definition prev_after :: "nat option \<Rightarrow> jsstring \<Rightarrow> nat option" where
  "prev_after p w = (if w = [] then p else Some (last w))"

definition next_unit :: "jsstring \<Rightarrow> nat option" where
  "next_unit s = (case s of [] \<Rightarrow> None | c # _ \<Rightarrow> Some c)"

fun star_cursors :: "(nat \<Rightarrow> bool) \<Rightarrow> cursor \<Rightarrow> cursor list" where
  \<comment> \<open>a starred class is greedy: the cursors after one more code unit come first\<close>
  "star_cursors c (p, []) = [(p, [])]"
| "star_cursors c (p, x # s) =
     (if c x then star_cursors c (Some x, s) @ [(p, x # s)] else [(p, x # s)])"

fun rx_match :: "rx \<Rightarrow> cursor \<Rightarrow> cursor list" where
  "rx_match (RLit cs) (p, s) =
     (if take (length cs) s = cs then [(prev_after p cs, drop (length cs) s)] else [])"
| "rx_match (RStar c) (p, s) = star_cursors c (p, s)"
| "rx_match (RPlus c) (p, s) =
     (case s of [] \<Rightarrow> [] | x # s' \<Rightarrow> if c x then star_cursors c (Some x, s') else [])"
| "rx_match (ROpt r) (p, s) = rx_match r (p, s) @ [(p, s)]"
| "rx_match RWordB (p, s) =
     (if is_word_opt p \<noteq> is_word_opt (next_unit s) then [(p, s)] else [])"
| "rx_match (RAlt a b) (p, s) = rx_match a (p, s) @ rx_match b (p, s)"
| "rx_match (RSeq a b) (p, s) = concat (map (rx_match b) (rx_match a (p, s)))"

fun rx_search :: "rx \<Rightarrow> nat option \<Rightarrow> jsstring \<Rightarrow> bool" where
  "rx_search r p [] = (rx_match r (p, []) \<noteq> [])"
| "rx_search r p (c # s) = (rx_match r (p, c # s) \<noteq> [] \<or> rx_search r (Some c) s)"

definition rx_test :: "rx \<Rightarrow> jsstring \<Rightarrow> bool" where
  \<comment> \<open>\<open>re.test(s)\<close>: some position of \<open>s\<close> starts a match\<close>
  "rx_test r s = rx_search r None s"

function rx_match_all :: "rx \<Rightarrow> nat option \<Rightarrow> jsstring \<Rightarrow> jsstring list" where
  "rx_match_all r p s =
     (if rx_match r (p, s) = []
      then (if s = [] then [] else rx_match_all r (Some (hd s)) (tl s))
      else let e = hd (rx_match r (p, s));
               m = take (length s - length (snd e)) s
           in m # (if length (snd e) < length s then rx_match_all r (fst e) (snd e)
                   else if s = [] then []
                   else rx_match_all r (Some (hd s)) (tl s)))"
  by pat_completeness auto
termination
  by (relation "measure (\<lambda>x. length (snd (snd x)))") auto

definition match_g :: "jsstring \<Rightarrow> rx \<Rightarrow> jsstring list" where
  \<comment> \<open>\<open>s.match(re) || []\<close> for a global \<open>re\<close>: the matched substrings from left to
      right, each search resuming where the last match ended (one further on after
      an empty match); no match gives the empty list\<close>
  "match_g s r = rx_match_all r None s"

section \<open>Output normalisation\<close>

record parse_result =
  sum' :: "int option"
  allNumbers :: "int list"

definition NUMBER_RX :: rx where
  \<comment> \<open>\<open>/-?\d+/\<close>\<close>
  "NUMBER_RX = RSeq (ROpt (RLit [45])) (RPlus is_digit)"

definition extractSumFromOutput :: "jsstring \<Rightarrow> parse_result" where
  "extractSumFromOutput stdout =
     (if stdout = [] then \<lparr>sum' = None, allNumbers = []\<rparr>
      else
        let matches = match_g stdout NUMBER_RX;
            numbers = map the (filter (\<lambda>n. n \<noteq> None) (map parseInt matches))
        in if length numbers = 0 then \<lparr>sum' = None, allNumbers = []\<rparr>
           else \<lparr>sum' = Some (numbers ! (length numbers - 1)), allNumbers = numbers\<rparr>)"


section \<open>The grader's texts\<close>

text \<open>
  The texts shown to the student are Hebrew; each is given by its UTF-16 code units,
  with the line of the source it is copied from and its meaning.
\<close>

definition NOTE_NO_SUM :: jsstring where
  \<comment> \<open>line 213 of script.js, in Hebrew: no final number was found in the output; print the sum of the 5 numbers last (preferably as sum = X), with no further numbers after it\<close>
  "NOTE_NO_SUM =
     [1500, 1488, 32, 1492, 1510, 1500, 1495, 1514, 1497, 32, 1500, 1502, 1510, 1493,
     1488, 32, 1502, 1505, 1508, 1512, 32, 1505, 1493, 1508, 1497, 32, 1489, 1508, 1500,
     1496, 46, 32, 1493, 1491, 1488, 32, 1513, 1489, 1505, 1493, 1507, 32, 1492, 1514,
     1493, 1499, 1504, 1497, 1514, 32, 1488, 1514, 1492, 32, 1502, 1491, 1508, 1497, 1505,
     32, 1488, 1514, 32, 1505, 1499, 1493, 1501, 32, 53, 32, 1492, 1502, 1505, 1508, 1512,
     1497, 1501, 32, 40, 1512, 1510, 1493, 1497, 32, 1489, 1508, 1493, 1512, 1502, 1496,
     32, 115, 117, 109, 32, 61, 32, 88, 41, 32, 1493, 1513, 1488, 1497, 1503, 32, 1492,
     1491, 1508, 1505, 1493, 1514, 32, 1504, 1493, 1505, 1508, 1493, 1514, 32, 1513, 1500,
     32, 1502, 1505, 1508, 1512, 1497, 1501, 32, 1488, 1495, 1512, 1497, 32, 1492, 1505,
     1499, 1493, 1501, 46]"

definition NOTE_WRONG_SUM_1 :: jsstring where
  \<comment> \<open>line 220 of script.js, in Hebrew: the opening of the wrong-sum note: the sum is wrong. expected\<close>
  "NOTE_WRONG_SUM_1 =
     [1492, 1505, 1499, 1493, 1501, 32, 1513, 1490, 1493, 1497, 46, 32, 1510, 1508, 1493,
     1497, 32]"

definition NOTE_WRONG_SUM_2 :: jsstring where
  \<comment> \<open>line 220 of script.js, in Hebrew: the middle of the wrong-sum note: , received\<close>
  "NOTE_WRONG_SUM_2 =
     [44, 32, 1492, 1514, 1511, 1489, 1500, 32]"

definition NOTE_WRONG_SUM_3 :: jsstring where
  \<comment> \<open>line 220 of script.js, in Hebrew: the full stop closing the wrong-sum note\<close>
  "NOTE_WRONG_SUM_3 =
     [46]"

definition NOTE_PASSED :: jsstring where
  \<comment> \<open>line 226 of script.js, in Hebrew: passed successfully, with a check mark\<close>
  "NOTE_PASSED =
     [1506, 1489, 1512, 32, 1489, 1492, 1510, 1500, 1495, 1492, 32, 10003]"

definition NOTE_NOT_COMPILED :: jsstring where
  \<comment> \<open>line 164 of script.js, in Hebrew: the code did not manage to compile\<close>
  "NOTE_NOT_COMPILED =
     [1492, 1511, 1493, 1491, 32, 1500, 1488, 32, 1492, 1510, 1500, 1497, 1495, 32, 1500,
     1492, 1514, 1511, 1502, 1508, 1500]"

definition NAME_TEST_3 :: jsstring where
  \<comment> \<open>line 130 of script.js, in Hebrew: Test 3: input with 0 and a negative, validity check\<close>
  "NAME_TEST_3 =
     [84, 101, 115, 116, 32, 51, 58, 32, 1511, 1500, 1496, 32, 1506, 1501, 32, 48, 32,
     1493, 1513, 1500, 1497, 1500, 1497, 32, 8211, 32, 1489, 1491, 1497, 1511, 1514, 32,
     1514, 1511, 1497, 1504, 1493, 1514]"

definition NAME_TEST_4 :: jsstring where
  \<comment> \<open>line 138 of script.js, in Hebrew: Test 4: a sequence with several wrong attempts\<close>
  "NAME_TEST_4 =
     [84, 101, 115, 116, 32, 52, 58, 32, 1512, 1510, 1507, 32, 1506, 1501, 32, 1502, 1505,
     1508, 1512, 32, 1504, 1497, 1505, 1497, 1493, 1504, 1493, 1514, 32, 1513, 1490, 1493,
     1497, 1497, 1501]"

definition FEEDBACK_NOT_COMPILING :: jsstring where
  \<comment> \<open>line 274 of script.js, in Hebrew: the code does not compile; fix the compilation errors and try again\<close>
  "FEEDBACK_NOT_COMPILING =
     [1492, 1511, 1493, 1491, 32, 1500, 1488, 32, 1502, 1514, 1511, 1502, 1508, 1500, 46,
     32, 1488, 1504, 1488, 32, 1514, 1511, 1503, 32, 1488, 1514, 32, 1513, 1490, 1497,
     1488, 1493, 1514, 32, 1492, 1511, 1493, 1502, 1508, 1497, 1500, 1510, 1497, 1492, 32,
     1493, 1504, 1505, 1492, 32, 1513, 1493, 1489, 46]"

definition FEEDBACK_EXCELLENT :: jsstring where
  \<comment> \<open>line 278 of script.js, in Hebrew: excellent: 5 positive numbers read, validity checked, the sum computed and printed correctly\<close>
  "FEEDBACK_EXCELLENT =
     [1502, 1510, 1493, 1497, 1503, 33, 32, 1511, 1500, 1496, 1514, 32, 53, 32, 1502,
     1505, 1508, 1512, 1497, 1501, 32, 1495, 1497, 1493, 1489, 1497, 1497, 1501, 44, 32,
     1489, 1497, 1510, 1506, 1514, 32, 1489, 1491, 1497, 1511, 1493, 1514, 32, 1514, 1511,
     1497, 1504, 1493, 1514, 32, 1493, 1492, 1505, 1499, 1493, 1501, 32, 1502, 1495, 1493,
     1513, 1489, 32, 1493, 1502, 1493, 1491, 1508, 1505, 32, 1489, 1510, 1493, 1512, 1492,
     32, 1504, 1499, 1493, 1504, 1492, 46, 32, 55356, 57225]"

definition WRONG_SUM_MARK :: jsstring where
  \<comment> \<open>line 284 of script.js, in Hebrew: the sum is wrong\<close>
  "WRONG_SUM_MARK =
     [1492, 1505, 1499, 1493, 1501, 32, 1513, 1490, 1493, 1497]"

definition HINT_SUM :: jsstring where
  \<comment> \<open>line 287 of script.js, in Hebrew: there is a problem in computing or printing the sum\<close>
  "HINT_SUM =
     [1497, 1513, 32, 1489, 1506, 1497, 1492, 32, 1489, 1495, 1497, 1513, 1493, 1489, 32,
     1488, 1493, 32, 1489, 1492, 1491, 1508, 1505, 1514, 32, 1492, 1505, 1499, 1493, 1501,
     46, 32, 1489, 1491, 1493, 1511, 32, 1513, 1492, 1511, 1493, 1491, 32, 1489, 1488,
     1502, 1514, 32, 1502, 1495, 1513, 1489, 32, 1488, 1514, 32, 1505, 1499, 1493, 1501,
     32, 53, 32, 1492, 1502, 1505, 1508, 1512, 1497, 1501, 32, 1492, 1495, 1497, 1493,
     1489, 1497, 1497, 1501, 32, 1489, 1500, 1489, 1491, 46]"

definition HINT_VALIDATION :: jsstring where
  \<comment> \<open>line 293 of script.js, in Hebrew: the code seems not to handle non-positive numbers properly\<close>
  "HINT_VALIDATION =
     [1504, 1512, 1488, 1492, 32, 1513, 1492, 1511, 1493, 1491, 32, 1500, 1488, 32, 1502,
     1496, 1508, 1500, 32, 1499, 1512, 1488, 1493, 1497, 32, 1489, 1502, 1505, 1508, 1512,
     1497, 1501, 32, 1513, 1488, 1497, 1504, 1501, 32, 1495, 1497, 1493, 1489, 1497, 1497,
     1501, 32, 40, 48, 32, 1488, 1493, 32, 1513, 1500, 1497, 1500, 1497, 1497, 1501, 41,
     46, 32, 1506, 1500, 1497, 1498, 32, 1500, 1489, 1511, 1513, 32, 1502, 1492, 1502,
     1513, 1514, 1502, 1513, 32, 1500, 1492, 1494, 1497, 1503, 32, 1502, 1495, 1491, 1513,
     32, 1489, 1502, 1511, 1493, 1501, 32, 1500, 1505, 1508, 1493, 1512, 32, 1488, 1493,
     1514, 1501, 32, 1499, 1488, 1495, 1491, 32, 1502, 1470, 53, 32, 1492, 1502, 1505,
     1508, 1512, 1497, 1501, 46]"

definition HINT_LOOP :: jsstring where
  \<comment> \<open>line 298 of script.js, in Hebrew: no loop seems to be used to read the numbers\<close>
  "HINT_LOOP =
     [1504, 1512, 1488, 1492, 32, 1513, 1488, 1497, 1503, 32, 1513, 1497, 1502, 1493,
     1513, 32, 1489, 1500, 1493, 1500, 1488, 1492, 32, 1499, 1491, 1497, 32, 1500, 1511,
     1500, 1493, 1496, 32, 1488, 1514, 32, 1492, 1502, 1505, 1508, 1512, 1497, 1501, 46,
     32, 1492, 1514, 1512, 1490, 1497, 1500, 32, 1491, 1493, 1512, 1513, 32, 1513, 1497,
     1502, 1493, 1513, 32, 1489, 1500, 1493, 1500, 1488, 1492, 32, 1506, 1491, 32, 1513,
     1504, 1511, 1500, 1496, 1493, 32, 53, 32, 1502, 1505, 1508, 1512, 1497, 1501, 32,
     1495, 1497, 1493, 1489, 1497, 1497, 1501, 46]"

definition HINT_POSITIVE_CHECK :: jsstring where
  \<comment> \<open>line 305 of script.js, in Hebrew: a validity check that the number is positive is missing\<close>
  "HINT_POSITIVE_CHECK =
     [1495, 1505, 1512, 1492, 32, 1489, 1491, 1497, 1511, 1514, 32, 1514, 1511, 1497,
     1504, 1493, 1514, 32, 1506, 1500, 32, 1499, 1498, 32, 1513, 1492, 1502, 1505, 1508,
     1512, 32, 1495, 1497, 1493, 1489, 1497, 46, 32, 1493, 1491, 1488, 32, 1513, 1488,
     1514, 1492, 32, 1489, 1493, 1491, 1511, 32, 1513, 1492, 1502, 1505, 1508, 1512, 32,
     1490, 1491, 1493, 1500, 32, 1502, 1470, 48, 32, 1500, 1508, 1504, 1497, 32, 1513,
     1488, 1514, 1492, 32, 1502, 1493, 1505, 1497, 1507, 32, 1488, 1493, 1514, 1493, 32,
     1500, 1505, 1499, 1493, 1501, 32, 1493, 1502, 1514, 1511, 1491, 1501, 32, 1500, 1505,
     1508, 1497, 1512, 1492, 46]"

definition FEEDBACK_GOOD :: jsstring where
  \<comment> \<open>line 310 of script.js, in Hebrew: good work, most checks passed, a few small points to improve\<close>
  "FEEDBACK_GOOD =
     [1506, 1489, 1493, 1491, 1492, 32, 1496, 1493, 1489, 1492, 33, 32, 1512, 1493, 1489,
     32, 1492, 1489, 1491, 1497, 1511, 1493, 1514, 32, 1506, 1489, 1512, 1493, 44, 32,
     1497, 1513, 32, 1499, 1502, 1492, 32, 1504, 1511, 1493, 1491, 1493, 1514, 32, 1511,
     1496, 1504, 1493, 1514, 32, 1500, 1513, 1497, 1508, 1493, 1512, 32, 8211, 32, 1489,
     1491, 1493, 1511, 32, 1488, 1514, 32, 1508, 1497, 1512, 1493, 1496, 32, 1502, 1511,
     1512, 1497, 32, 1492, 1489, 1491, 1497, 1511, 1492, 46]"

definition FEEDBACK_PROGRESS :: jsstring where
  \<comment> \<open>line 312 of script.js, in Hebrew: nice progress, but some of the checks failed\<close>
  "FEEDBACK_PROGRESS =
     [1497, 1513, 32, 1492, 1514, 1511, 1491, 1502, 1493, 1514, 32, 1497, 1508, 1492, 44,
     32, 1488, 1489, 1500, 32, 1495, 1500, 1511, 32, 1502, 1492, 1489, 1491, 1497, 1511,
     1493, 1514, 32, 1504, 1499, 1513, 1500, 1493, 46, 32, 1499, 1491, 1488, 1497, 32,
     1500, 1489, 1491, 1493, 1511, 32, 1488, 1514, 32, 1504, 1493, 1513, 1488, 32, 1489,
     1491, 1497, 1511, 1514, 32, 1492, 1495, 1497, 1493, 1489, 1497, 1493, 1514, 32, 1493,
     1495, 1497, 1513, 1493, 1489, 32, 1492, 1505, 1499, 1493, 1501, 46]"

definition FEEDBACK_NEEDS_WORK :: jsstring where
  \<comment> \<open>line 314 of script.js, in Hebrew: the code needs more work\<close>
  "FEEDBACK_NEEDS_WORK =
     [1492, 1511, 1493, 1491, 32, 1494, 1511, 1493, 1511, 32, 1500, 1506, 1489, 1493,
     1491, 1492, 32, 1504, 1493, 1505, 1508, 1514, 46, 32, 1489, 1491, 1493, 1511, 32,
     1488, 1514, 32, 1500, 1493, 1490, 1497, 1511, 1514, 32, 1492, 1500, 1493, 1500, 1488,
     1492, 44, 32, 1514, 1504, 1488, 1497, 32, 1492, 1495, 1497, 1493, 1489, 1497, 1493,
     1514, 32, 1493, 1492, 1488, 1493, 1508, 1503, 32, 1513, 1489, 1493, 32, 1488, 1514,
     1492, 32, 1502, 1495, 1513, 1489, 32, 1493, 1502, 1491, 1508, 1497, 1505, 32, 1488,
     1514, 32, 1492, 1505, 1499, 1493, 1501, 46]"

section \<open>Comparison\<close>

record comparison =
  passed :: bool
  "notes" :: jsstring

definition compareSums :: "int \<Rightarrow> parse_result \<Rightarrow> comparison" where
  "compareSums expectedSum parseResult =
     (case sum' parseResult of
        None \<Rightarrow> \<lparr>passed = False, notes = NOTE_NO_SUM\<rparr>
      | Some reported \<Rightarrow>
          if reported \<noteq> expectedSum
          then \<lparr>passed = False,
                notes = NOTE_WRONG_SUM_1 @ Number_toString expectedSum @ NOTE_WRONG_SUM_2
                        @ Number_toString reported @ NOTE_WRONG_SUM_3\<rparr>
          else \<lparr>passed = True, notes = NOTE_PASSED\<rparr>)"

section \<open>Running the C program\<close>

text \<open>
  The C engine (\<open>JSCPP.run\<close>) is outside the repository: it is a parameter of the
  model. A call either returns an exit code or throws; in both cases it has passed
  some strings to the \<open>write\<close> callback before. What it throws is an error object
  (its \<open>name\<close> and \<open>message\<close>) or a plain string.
\<close>

datatype thrown = Thrown_Error jsstring jsstring | Thrown_String jsstring

datatype engine_result = Returned int "jsstring list" | Threw thrown "jsstring list"

type_synonym engine = "jsstring \<Rightarrow> jsstring \<Rightarrow> engine_result"

record execution =
  compiled :: bool
  compileOutput :: jsstring
  stdout :: jsstring
  stderr :: jsstring

fun String_of :: "thrown \<Rightarrow> jsstring" where
  \<comment> \<open>\<open>String(error)\<close>; for an error object, \<open>Error.prototype.toString\<close>\<close>
  "String_of (Thrown_String s) = s"
| "String_of (Thrown_Error n m) =
     (if n = [] then m else if m = [] then n else n @ js '': '' @ m)"

fun error_message :: "thrown \<Rightarrow> jsstring" where
  \<comment> \<open>\<open>(error && error.message) ? error.message : String(error)\<close>; a string has no
      \<open>message\<close>, and an empty \<open>message\<close> is falsy\<close>
  "error_message (Thrown_String s) = String_of (Thrown_String s)"
| "error_message (Thrown_Error n m) = (if m \<noteq> [] then m else String_of (Thrown_Error n m))"

definition written :: "jsstring list \<Rightarrow> jsstring" where
  \<comment> \<open>\<open>stdout += s\<close> for each string written, starting from the empty string\<close>
  "written ws = foldl (\<lambda>out s. out @ s) [] ws"

definition runCProgram :: "engine \<Rightarrow> jsstring \<Rightarrow> jsstring \<Rightarrow> execution" where
  "runCProgram JSCPP_run cSource inp =
     (case JSCPP_run cSource inp of
        Returned exitCode ws \<Rightarrow>
          \<lparr>compiled = True,
           compileOutput = js ''Compilation/execution successful (exit code ''
                           @ Number_toString exitCode @ js '')'',
           stdout = written ws,
           stderr = []\<rparr>
      | Threw error ws \<Rightarrow>
          let errorMsg = error_message error
          in \<lparr>compiled = False,
              compileOutput = errorMsg,
              stdout = written ws,
              stderr = errorMsg\<rparr>)"

section \<open>Test cases and test results\<close>

record test_case =
  name :: jsstring
  input :: jsstring
  expectedSum :: int
  points :: int
  isValidationTest :: bool

text \<open>
  A result is the test case spread out, with the verdict added. The source leaves
  \<open>isValidationTest\<close> out of the first two test cases and \<open>compilationFailed\<close> out of
  the result of a run that succeeded; every reader of these fields only tests their
  truth, so a missing field is modelled as \<open>False\<close>.
\<close>

record test_result = test_case +
  passed :: bool
  reportedSum :: "int option"
  "notes" :: jsstring
  compilationFailed :: bool

definition generateTestCases :: "test_case list" where
  "generateTestCases =
     [\<lparr>name = js ''Test 1: 1 2 3 4 5'',
       input = [49, 10, 50, 10, 51, 10, 52, 10, 53, 10],
       expectedSum = 15, points = 25, isValidationTest = False\<rparr>,
      \<lparr>name = js ''Test 2: 10 20 30 40 50'',
       input = [49, 48, 10, 50, 48, 10, 51, 48, 10, 52, 48, 10, 53, 48, 10],
       expectedSum = 150, points = 25, isValidationTest = False\<rparr>,
      \<lparr>name = NAME_TEST_3,
       input = [48, 10, 45, 51, 10, 53, 10, 55, 10, 56, 10, 57, 10, 49, 48, 10, 49, 49, 10],
       expectedSum = 39, points = 25, isValidationTest = True\<rparr>,
      \<lparr>name = NAME_TEST_4,
       input = [45, 49, 10, 48, 10, 45, 50, 10, 48, 10, 51, 10, 52, 10, 53, 10, 54, 10, 55, 10],
       expectedSum = 25, points = 25, isValidationTest = True\<rparr>]"

definition failed_result :: "test_case \<Rightarrow> execution \<Rightarrow> test_result" where
  \<comment> \<open>the object pushed when \<open>!result.compiled\<close>\<close>
  "failed_result testCase result =
     \<lparr>name = name testCase, input = input testCase, expectedSum = expectedSum testCase,
      points = points testCase, isValidationTest = isValidationTest testCase,
      passed = False,
      reportedSum = None,
      notes = (if compileOutput result \<noteq> [] then compileOutput result else NOTE_NOT_COMPILED),
      compilationFailed = True\<rparr>"

definition judged_result :: "test_case \<Rightarrow> execution \<Rightarrow> test_result" where
  \<comment> \<open>the object pushed after a run that succeeded\<close>
  "judged_result testCase result =
     (let parseResult = extractSumFromOutput (stdout result);
          comparisonResult = compareSums (expectedSum testCase) parseResult
      in \<lparr>name = name testCase, input = input testCase, expectedSum = expectedSum testCase,
          points = points testCase, isValidationTest = isValidationTest testCase,
          passed = comparison.passed comparisonResult,
          reportedSum = sum' parseResult,
          notes = comparison.notes comparisonResult,
          compilationFailed = False\<rparr>)"

fun run_loop :: "engine \<Rightarrow> jsstring \<Rightarrow> test_case list \<Rightarrow> test_result list \<Rightarrow> test_result list" where
  \<comment> \<open>the \<open>for ... of\<close> loop of \<open>runAllTests\<close>, on the test cases left and the results so far;
      \<open>break\<close> returns the results\<close>
  "run_loop JSCPP_run studentCode [] results = results"
| "run_loop JSCPP_run studentCode (testCase # rest) results =
     (let result = runCProgram JSCPP_run studentCode (input testCase)
      in if \<not> compiled result
         then results @ [failed_result testCase result]
         else run_loop JSCPP_run studentCode rest (results @ [judged_result testCase result]))"

definition runAllTests :: "engine \<Rightarrow> jsstring \<Rightarrow> test_case list \<Rightarrow> test_result list" where
  "runAllTests JSCPP_run studentCode testCases = run_loop JSCPP_run studentCode testCases []"

section \<open>Scoring\<close>

fun rx_seq :: "rx list \<Rightarrow> rx" where
  "rx_seq [] = RLit []"
| "rx_seq [r] = r"
| "rx_seq (r # rs) = RSeq r (rx_seq rs)"

fun rx_alt :: "rx list \<Rightarrow> rx" where
  "rx_alt [] = RPlus (\<lambda>c. False)"
| "rx_alt [r] = r"
| "rx_alt (r # rs) = RAlt r (rx_alt rs)"

definition LOOP_RX :: rx where
  \<comment> \<open>\<open>/\b(for|while|do)\b/\<close>\<close>
  "LOOP_RX = rx_seq [RWordB, rx_alt [RLit (js ''for''), RLit (js ''while''), RLit (js ''do'')],
                     RWordB]"

definition POSITIVE_RX_1 :: rx where
  \<comment> \<open>\<open>/\bif\s*\([^)]*(<=\s*0|<\s*1|num\s*<=\s*0|num\s*<\s*1)/\<close>\<close>
  "POSITIVE_RX_1 =
     rx_seq [RWordB, RLit (js ''if''), RStar is_space, RLit (js ''(''), RStar (\<lambda>c. c \<noteq> 41),
             rx_alt [rx_seq [RLit (js ''<=''), RStar is_space, RLit (js ''0'')],
                     rx_seq [RLit (js ''<''), RStar is_space, RLit (js ''1'')],
                     rx_seq [RLit (js ''num''), RStar is_space, RLit (js ''<=''),
                             RStar is_space, RLit (js ''0'')],
                     rx_seq [RLit (js ''num''), RStar is_space, RLit (js ''<''),
                             RStar is_space, RLit (js ''1'')]]]"

definition POSITIVE_RX_2 :: rx where
  \<comment> \<open>\<open>/\bif\s*\([^)]*>\s*0/\<close>\<close>
  "POSITIVE_RX_2 =
     rx_seq [RWordB, RLit (js ''if''), RStar is_space, RLit (js ''(''), RStar (\<lambda>c. c \<noteq> 41),
             RLit (js ''>''), RStar is_space, RLit (js ''0'')]"

definition hasLoop :: "jsstring \<Rightarrow> bool" where
  "hasLoop codeSource = rx_test LOOP_RX codeSource"

definition hasPositiveCheck :: "jsstring \<Rightarrow> bool" where
  "hasPositiveCheck codeSource =
     (rx_test POSITIVE_RX_1 codeSource \<or> rx_test POSITIVE_RX_2 codeSource)"

type_synonym jsnumber = "rat option"

definition totalPoints :: "test_result list \<Rightarrow> int" where
  \<comment> \<open>\<open>test.points || 0\<close> is \<open>test.points\<close> for every integer\<close>
  "totalPoints testResults = foldl (\<lambda>sum test. sum + points test) 0 testResults"

definition earnedPoints :: "test_result list \<Rightarrow> int" where
  "earnedPoints testResults =
     foldl (\<lambda>sum test. sum + (if passed test then points test else 0)) 0 testResults"

definition functionalScore :: "test_result list \<Rightarrow> jsnumber" where
  "functionalScore testResults =
     (if totalPoints testResults > 0
      then map_option (\<lambda>q. q * 80)
             (js_div (of_int (earnedPoints testResults)) (of_int (totalPoints testResults)))
      else Some 0)"

definition qualityScore :: "jsstring \<Rightarrow> rat" where
  "qualityScore codeSource =
     (let q0 = 20;
          q1 = (if \<not> hasLoop codeSource then q0 - 10 else q0);
          q2 = (if \<not> hasPositiveCheck codeSource then q1 - 10 else q1)
      in if q2 < 0 then 0 else q2)"

definition calculateScore :: "test_result list \<Rightarrow> jsstring \<Rightarrow> jsnumber" where
  "calculateScore testResults codeSource =
     (if length testResults > 0 \<and> compilationFailed (testResults ! 0) then Some 0
      else map_option
             (\<lambda>f. of_int (Math_round (max 0 (min 100 (f + qualityScore codeSource)))))
             (functionalScore testResults))"

section \<open>Feedback\<close>

definition js_ge :: "jsnumber \<Rightarrow> rat \<Rightarrow> bool" where
  \<comment> \<open>\<open>score >= n\<close>, false when the score is not a number\<close>
  "js_ge score n = (case score of None \<Rightarrow> False | Some x \<Rightarrow> x \<ge> n)"

definition anyWrongSum :: "test_result list \<Rightarrow> bool" where
  "anyWrongSum testResults =
     list_ex (\<lambda>t. \<not> passed t \<and> notes t \<noteq> [] \<and> js_includes (notes t) WRONG_SUM_MARK) testResults"

definition failedValidation :: "test_result list \<Rightarrow> bool" where
  "failedValidation testResults =
     (let validationTests = filter (\<lambda>t. isValidationTest t) testResults
      in list_ex (\<lambda>t. \<not> passed t) validationTests)"

definition feedback_hints :: "test_result list \<Rightarrow> jsstring \<Rightarrow> jsstring list" where
  \<comment> \<open>the array \<open>feedback\<close> after the four pushes\<close>
  "feedback_hints testResults codeSource =
     (let f0 = [];
          f1 = (if anyWrongSum testResults then f0 @ [HINT_SUM] else f0);
          f2 = (if failedValidation testResults then f1 @ [HINT_VALIDATION] else f1);
          f3 = (if \<not> hasLoop codeSource then f2 @ [HINT_LOOP] else f2);
          f4 = (if \<not> hasPositiveCheck codeSource then f3 @ [HINT_POSITIVE_CHECK] else f3)
      in f4)"

definition generateFeedback :: "test_result list \<Rightarrow> jsnumber \<Rightarrow> jsstring \<Rightarrow> jsstring" where
  "generateFeedback testResults score codeSource =
     (if length testResults > 0 \<and> compilationFailed (testResults ! 0)
      then FEEDBACK_NOT_COMPILING
      else if score = Some 100 then FEEDBACK_EXCELLENT
      else
        let feedback = feedback_hints testResults codeSource
        in if length feedback = 0
           then (if js_ge score 80 then FEEDBACK_GOOD
                 else if js_ge score 60 then FEEDBACK_PROGRESS
                 else FEEDBACK_NEEDS_WORK)
           else join feedback (js '' ''))"

section \<open>Vocabulary of the specification\<close>

text \<open>
  The definitions below are not translations of the source. They say, in the words of
  the specification, what the source is compared with.
\<close>

text \<open>
  A number text is an optional minus sign followed by one or more decimal digits; its
  value is read in base 10.
\<close>

definition is_number_text :: "jsstring \<Rightarrow> bool" where
  "is_number_text t =
     (let ds = (if t \<noteq> [] \<and> hd t = 45 then tl t else t) in ds \<noteq> [] \<and> list_all is_digit ds)"

definition base10 :: "jsstring \<Rightarrow> nat" where
  "base10 ds = (\<Sum>i<length ds. (ds ! i - 48) * 10 ^ (length ds - Suc i))"

definition number_value :: "jsstring \<Rightarrow> int" where
  "number_value t = (if t \<noteq> [] \<and> hd t = 45 then - int (base10 (tl t)) else int (base10 t))"

text \<open>
  A direct scanner for number texts: at a digit it takes the whole run of digits, at a
  minus sign followed by a digit it takes the sign and the run, and otherwise it moves
  one code unit on.
\<close>

function number_scan :: "jsstring \<Rightarrow> jsstring list" where
  "number_scan [] = []"
| "number_scan (c # s) =
     (if is_digit c then (c # takeWhile is_digit s) # number_scan (dropWhile is_digit s)
      else if c = 45 \<and> s \<noteq> [] \<and> is_digit (hd s)
           then (45 # takeWhile is_digit s) # number_scan (dropWhile is_digit s)
           else number_scan s)"
  by pat_completeness auto
termination
  by (relation "measure length") (auto simp: length_dropWhile_le less_Suc_eq_le)


text \<open>
  The hints of the feedback, each with the condition that triggers it, in the order of
  the specification; and the concatenation of texts with one space between neighbours.
\<close>

fun space_separated :: "jsstring list \<Rightarrow> jsstring" where
  "space_separated [] = []"
| "space_separated (x # xs) = x @ concat (map (\<lambda>y. 32 # y) xs)"

definition spec_hints :: "test_result list \<Rightarrow> jsstring \<Rightarrow> jsstring list" where
  "spec_hints rs src =
     (if \<exists>t\<in>set rs. \<not> passed t \<and> sublist WRONG_SUM_MARK (notes t) then [HINT_SUM] else [])
     @ (if \<exists>t\<in>set rs. isValidationTest t \<and> \<not> passed t then [HINT_VALIDATION] else [])
     @ (if hasLoop src then [] else [HINT_LOOP])
     @ (if hasPositiveCheck src then [] else [HINT_POSITIVE_CHECK])"


text \<open>
  The score as the specification words it: the functional part is 80 times the points
  of the passed results over the points of all results, with no case for a total of
  zero, where the quotient is not a number; the quality part starts at 20, loses 10
  without a loop keyword and 10 without a positivity check, and is floored at 0.
  \<open>guarded_functional\<close> is the functional part with the case the source adds: 0 when
  the total is not positive.
\<close>

definition passed_points :: "test_result list \<Rightarrow> int" where
  "passed_points rs = sum_list (map points (filter passed rs))"

definition all_points :: "test_result list \<Rightarrow> int" where
  "all_points rs = sum_list (map points rs)"

definition spec_quality :: "jsstring \<Rightarrow> rat" where
  "spec_quality src =
     max 0 (20 - (if hasLoop src then 0 else 10) - (if hasPositiveCheck src then 0 else 10))"

definition spec_functional :: "test_result list \<Rightarrow> rat option" where
  "spec_functional rs = js_div (80 * of_int (passed_points rs)) (of_int (all_points rs))"

definition spec_score :: "test_result list \<Rightarrow> jsstring \<Rightarrow> rat option" where
  "spec_score rs src =
     map_option (\<lambda>f. of_int (round (max 0 (min 100 (f + spec_quality src))))) (spec_functional rs)"

definition guarded_functional :: "test_result list \<Rightarrow> rat" where
  "guarded_functional rs =
     (if 0 < all_points rs then 80 * of_int (passed_points rs) / of_int (all_points rs) else 0)"


text \<open>
  The execution adapter reports success for a test case.
\<close>

definition run_ok :: "engine \<Rightarrow> jsstring \<Rightarrow> test_case \<Rightarrow> bool" where
  "run_ok JSCPP_run studentCode testCase =
     compiled (runCProgram JSCPP_run studentCode (input testCase))"


text \<open>
  A declarative reading of the regular expressions: \<open>rx_accepts r p w rest\<close> says that
  \<open>r\<close> matches exactly the text \<open>w\<close> when the code unit before \<open>w\<close> is \<open>p\<close> and the
  text after it is \<open>rest\<close> (both matter to the word boundary only).
\<close>

fun rx_accepts :: "rx \<Rightarrow> nat option \<Rightarrow> jsstring \<Rightarrow> jsstring \<Rightarrow> bool" where
  "rx_accepts (RLit cs) p w rest = (w = cs)"
| "rx_accepts (RStar c) p w rest = (\<forall>x\<in>set w. c x)"
| "rx_accepts (RPlus c) p w rest = (w \<noteq> [] \<and> (\<forall>x\<in>set w. c x))"
| "rx_accepts (ROpt r) p w rest = (w = [] \<or> rx_accepts r p w rest)"
| "rx_accepts RWordB p w rest = (w = [] \<and> is_word_opt p \<noteq> is_word_opt (next_unit rest))"
| "rx_accepts (RAlt a b) p w rest = (rx_accepts a p w rest \<or> rx_accepts b p w rest)"
| "rx_accepts (RSeq a b) p w rest =
     (\<exists>u v. w = u @ v \<and> rx_accepts a p u (v @ rest) \<and> rx_accepts b (prev_after p u) v rest)"

text \<open>
  A conditional test that arrives at a comparison: the word \<open>if\<close> not preceded by a
  word character, optional white space, an opening parenthesis, any text without a
  closing parenthesis, then an operator, optional white space and a digit, the pair of
  operator and digit being one of the given comparisons. The source recognises three
  comparisons; the claim about the positivity check names six.
\<close>

definition guard_pattern :: "(jsstring \<times> jsstring) set \<Rightarrow> jsstring \<Rightarrow> bool" where
  "guard_pattern comparisons src =
     (\<exists>pre ws body op gap d post.
        src = pre @ js ''if'' @ ws @ js ''('' @ body @ op @ gap @ d @ post
        \<and> (pre = [] \<or> \<not> is_word (last pre))
        \<and> (\<forall>c\<in>set ws. is_space c)
        \<and> 41 \<notin> set body
        \<and> (\<forall>c\<in>set gap. is_space c)
        \<and> (op, d) \<in> comparisons)"

definition code_comparisons :: "(jsstring \<times> jsstring) set" where
  "code_comparisons = {(js ''<='', js ''0''), (js ''<'', js ''1''), (js ''>'', js ''0'')}"

definition claimed_comparisons :: "(jsstring \<times> jsstring) set" where
  "claimed_comparisons = {js ''<='', js ''<'', js ''>''} \<times> {js ''0'', js ''1''}"

text \<open>
  The texts that the last part of each of the two positivity expressions matches.
\<close>

definition tail_1 :: "jsstring \<Rightarrow> bool" where
  "tail_1 v = ((\<exists>gap. v = js ''<='' @ gap @ js ''0'' \<and> (\<forall>c\<in>set gap. is_space c))
     \<or> (\<exists>gap. v = js ''<'' @ gap @ js ''1'' \<and> (\<forall>c\<in>set gap. is_space c))
     \<or> (\<exists>g gap. v = js ''num'' @ g @ js ''<='' @ gap @ js ''0''
            \<and> (\<forall>c\<in>set g. is_space c) \<and> (\<forall>c\<in>set gap. is_space c))
     \<or> (\<exists>g gap. v = js ''num'' @ g @ js ''<'' @ gap @ js ''1''
            \<and> (\<forall>c\<in>set g. is_space c) \<and> (\<forall>c\<in>set gap. is_space c)))"

definition tail_2 :: "jsstring \<Rightarrow> bool" where
  "tail_2 v = (\<exists>gap. v = js ''>'' @ gap @ js ''0'' \<and> (\<forall>c\<in>set gap. is_space c))"









section \<open>Example engines and results\<close>

text \<open>
  Concrete engines and results, used where a theorem is instantiated or refuted.
  \<open>trap_engine\<close> runs the source \<open>ok\<close> to the end and rejects every other source
  with a syntax error after one write.
\<close>

definition trap_engine :: engine where
  "trap_engine cSource inp =
     (if cSource = js ''ok'' then Returned 0 [js ''sum = '', js ''15'']
      else Threw (Thrown_Error (js ''Error'') (js ''6:1 syntax error'')) [js ''Enter''])"


text \<open>
  \<open>crashed_result\<close> is what a run records for the first test case when the engine
  throws the text \<open>boom\<close>.
\<close>

definition crashed_result :: test_result where
  "crashed_result =
     \<lparr>name = js ''Test 1: 1 2 3 4 5'', input = [49, 10, 50, 10, 51, 10, 52, 10, 53, 10],
      expectedSum = 15, points = 25, isValidationTest = False,
      passed = False, reportedSum = None, notes = js ''boom'', compilationFailed = True\<rparr>"


text \<open>
  \<open>zero_point_result\<close> is a passed result of a test case worth no points;
  \<open>passing_result\<close> is the passed result of the first test case of the catalogue.
\<close>

definition zero_point_result :: test_result where
  "zero_point_result =
     \<lparr>name = js ''Warm-up'', input = [49, 10], expectedSum = 1, points = 0,
      isValidationTest = False,
      passed = True, reportedSum = Some 1, notes = NOTE_PASSED, compilationFailed = False\<rparr>"

definition passing_result :: test_result where
  "passing_result =
     \<lparr>name = js ''Test 1: 1 2 3 4 5'', input = [49, 10, 50, 10, 51, 10, 52, 10, 53, 10],
      expectedSum = 15, points = 25, isValidationTest = False,
      passed = True, reportedSum = Some 15, notes = NOTE_PASSED, compilationFailed = False\<rparr>"


text \<open>
  \<open>late_trap_engine\<close> behaves like a program that prints the right sum on the five
  inputs of the first test case and runs out of time on any longer input;
  \<open>silent_engine\<close> throws the empty string on every call.
\<close>

definition late_trap_engine :: engine where
  "late_trap_engine cSource inp =
     (if length inp \<le> 10 then Returned 0 [js ''sum = 15'']
      else Threw (Thrown_Error (js ''Error'') (js ''time limit exceeded'')) [])"

definition silent_engine :: engine where
  "silent_engine cSource inp = Threw (Thrown_String []) []"


text \<open>
  \<open>sample_source\<close> is a source text with a loop keyword and a positivity check.
\<close>

definition sample_source :: jsstring where
  "sample_source = js ''for(;;) if(n>0) s+=n;''"

section \<open>Lemmas on the regular expression for numbers\<close>

declare rx_match_all.simps [simp del]
declare digits_of.simps [simp del]

lemma take_takeWhile_length: "take (length (takeWhile P s)) s = takeWhile P s"
  by (induction s) auto


lemma star_cursors_hd:
  "star_cursors c (p, s) \<noteq> [] \<and>
   hd (star_cursors c (p, s)) = (prev_after p (takeWhile c s), dropWhile c s)"
proof (induction s arbitrary: p)
  case Nil
  show ?case by (simp add: prev_after_def)
next
  case (Cons x s)
  show ?case using Cons[of "Some x"] by (simp add: prev_after_def)
qed

lemma rx_match_plus_Nil: "takeWhile c s = [] \<Longrightarrow> rx_match (RPlus c) (p, s) = []"
  by (cases s) (auto split: if_splits)

lemma rx_match_plus_hd:
  assumes a: "takeWhile c s \<noteq> []"
  shows "rx_match (RPlus c) (p, s) \<noteq> [] \<and>
     hd (rx_match (RPlus c) (p, s)) = (Some (last (takeWhile c s)), dropWhile c s)"
proof -
  obtain x s' where s: "s = x # s'" "c x" using a by (cases s) (auto split: if_splits)
  show ?thesis using star_cursors_hd[of c "Some x" s'] s by (simp add: prev_after_def)
qed

lemma not_digit_45 [simp]: "\<not> is_digit 45"
  by (simp add: is_digit_def)

lemma number_rx_digit:
  assumes "is_digit c"
  shows "rx_match NUMBER_RX (p, c # s) \<noteq> [] \<and>
         hd (rx_match NUMBER_RX (p, c # s)) = (Some (last (c # takeWhile is_digit s)), dropWhile is_digit s)"
proof -
  have ne: "c \<noteq> 45" using assms by auto
  have tw: "takeWhile is_digit (c # s) \<noteq> []" using assms by simp
  show ?thesis
    using rx_match_plus_hd[OF tw, of p] assms ne
    by (simp add: NUMBER_RX_def del: rx_match.simps(3)) 
qed


lemma number_rx_minus:
  assumes "s \<noteq> []" "is_digit (hd s)"
  shows "rx_match NUMBER_RX (p, 45 # s) \<noteq> [] \<and>
         hd (rx_match NUMBER_RX (p, 45 # s)) = (Some (last (takeWhile is_digit s)), dropWhile is_digit s)"
proof -
  have tw: "takeWhile is_digit s \<noteq> []" using assms by (cases s) auto
  show ?thesis
    using rx_match_plus_hd[OF tw, of "Some 45"]
    by (simp add: NUMBER_RX_def prev_after_def del: rx_match.simps(3))
qed

lemma number_rx_none:
  assumes "\<not> is_digit c" "\<not> (c = 45 \<and> s \<noteq> [] \<and> is_digit (hd s))"
  shows "rx_match NUMBER_RX (p, c # s) = []"
proof -
  have 1: "takeWhile is_digit (c # s) = []" using assms by simp
  have 2: "c = 45 \<Longrightarrow> takeWhile is_digit s = []" using assms by (cases s) auto
  show ?thesis using 1 2
    by (auto simp add: NUMBER_RX_def prev_after_def simp del: rx_match.simps(3) takeWhile.simps
             dest!: rx_match_plus_Nil)
qed

lemma number_rx_Nil: "rx_match NUMBER_RX (p, []) = []"
  by (simp add: NUMBER_RX_def)

lemma length_takeWhile_dropWhile: "length (takeWhile P s) + length (dropWhile P s) = length s"
  by (induction s) auto

lemma match_all_number: "rx_match_all NUMBER_RX p s = number_scan s"
proof (induction s arbitrary: p rule: number_scan.induct)
  case 1
  show ?case by (subst rx_match_all.simps) (simp add: number_rx_Nil)
next
  case (2 c s)
  have len: "length s - length (dropWhile is_digit s) = length (takeWhile is_digit s)"
    using length_takeWhile_dropWhile[of is_digit s] by simp
  have lt: "length (dropWhile is_digit s) < length (c # s)"
    by (simp add: length_dropWhile_le less_Suc_eq_le)
  consider (d) "is_digit c" | (m) "\<not> is_digit c" "c = 45 \<and> s \<noteq> [] \<and> is_digit (hd s)"
    | (n) "\<not> is_digit c" "\<not> (c = 45 \<and> s \<noteq> [] \<and> is_digit (hd s))" by blast
  then show ?case
  proof cases
    case d
    have m: "take (length (c # s) - length (dropWhile is_digit s)) (c # s) = c # takeWhile is_digit s"
      using len length_dropWhile_le[of is_digit s]
      by (simp add: Suc_diff_le take_takeWhile_length)
    show ?thesis
      using number_rx_digit[OF d, of p s] 2(1)[OF d] lt m d
      by (subst rx_match_all.simps) (simp add: Let_def)
  next
    case m
    have mm: "take (length (c # s) - length (dropWhile is_digit s)) (c # s) = c # takeWhile is_digit s"
      using len length_dropWhile_le[of is_digit s]
      by (simp add: Suc_diff_le take_takeWhile_length)
    show ?thesis
      using number_rx_minus[of s p] 2(2)[OF m(1) m(2)] lt mm m
      by (subst rx_match_all.simps) (simp add: Let_def)
  next
    case n
    show ?thesis
      using number_rx_none[OF n, of p] 2(3)[OF n(1) n(2)] n
      by (subst rx_match_all.simps) auto
  qed
qed


lemma base10_snoc: "base10 (ds @ [d]) = 10 * base10 ds + (d - 48)"
proof -
  have "(\<Sum>i<length ds. ((ds @ [d]) ! i - 48) * 10 ^ (length ds - i))
        = (\<Sum>i<length ds. 10 * ((ds ! i - 48) * 10 ^ (length ds - Suc i)))"
  proof (rule sum.cong)
    fix i assume "i \<in> {..<length ds}"
    then have "length ds - i = Suc (length ds - Suc i)" by auto
    then show "((ds @ [d]) ! i - 48) * 10 ^ (length ds - i)
               = 10 * ((ds ! i - 48) * 10 ^ (length ds - Suc i))"
      using \<open>i \<in> {..<length ds}\<close> by (simp add: nth_append)
  qed simp
  then show ?thesis
    by (simp add: base10_def sum_distrib_left)
qed

lemma digits_value_base10: "digits_value ds = base10 ds"
proof (induction ds rule: rev_induct)
  case Nil
  show ?case by (simp add: digits_value_def base10_def)
next
  case (snoc d ds)
  then show ?case by (simp add: base10_snoc) (simp add: digits_value_def)
qed

lemma digit_not_space: "is_digit c \<Longrightarrow> \<not> is_space c"
  by (auto simp: is_digit_def is_space_def)

lemma takeWhile_all: "list_all P xs \<Longrightarrow> takeWhile P xs = xs"
  by (induction xs) auto

lemma parseInt_number_text:
  assumes "is_number_text t"
  shows "parseInt t = Some (number_value t)"
proof (cases "t \<noteq> [] \<and> hd t = 45")
  case True
  then obtain ds where t: "t = 45 # ds" by (cases t) auto
  have ds: "ds \<noteq> []" "list_all is_digit ds" using assms by (auto simp: is_number_text_def t)
  have sp: "\<not> is_space 45" by (simp add: is_space_def)
  show ?thesis using ds sp
    by (simp add: parseInt_def t number_value_def takeWhile_all digits_value_base10 Let_def)
next
  case False
  then have ds: "t \<noteq> []" "list_all is_digit t" using assms by (auto simp: is_number_text_def)
  then obtain c r where t: "t = c # r" by (cases t) auto
  have c: "is_digit c" using ds t by simp
  have c45: "c \<noteq> 45" "c \<noteq> 43" using c by (auto simp: is_digit_def)
  have tw: "takeWhile is_digit (c # r) = c # r" using ds t takeWhile_all by metis
  have sp: "dropWhile is_space (c # r) = c # r" using digit_not_space[OF c] by simp
  show ?thesis
    by (simp add: parseInt_def t number_value_def digits_value_base10 Let_def sp tw c45
             del: takeWhile.simps dropWhile.simps)
qed

lemma list_all_takeWhile: "list_all P (takeWhile P xs)"
  by (induction xs) auto

lemma number_scan_shape: "t \<in> set (number_scan s) \<Longrightarrow> is_number_text t"
proof (induction s rule: number_scan.induct)
  case 1
  then show ?case by simp
next
  case (2 c s)
  show ?case
  proof (cases "is_digit c")
    case True
    then show ?thesis using 2 by (auto simp: is_number_text_def list_all_takeWhile)
  next
    case False
    show ?thesis
    proof (cases "c = 45 \<and> s \<noteq> [] \<and> is_digit (hd s)")
      case True
      then have "takeWhile is_digit s \<noteq> []" by (cases s) auto
      then show ?thesis using 2 False True by (auto simp: is_number_text_def list_all_takeWhile)
    next
      case F2: False
      then show ?thesis using 2 False by auto
    qed
  qed
qed

lemma number_scan_parse:
  "map the (filter (\<lambda>n. n \<noteq> None) (map parseInt (number_scan s))) = map number_value (number_scan s)"
proof -
  have "\<forall>t\<in>set ts. is_number_text t \<Longrightarrow>
        map the (filter (\<lambda>n. n \<noteq> None) (map parseInt ts)) = map number_value ts" for ts
    by (induction ts) (auto simp: parseInt_number_text)
  then show ?thesis using number_scan_shape by blast
qed

lemma extract_unfold:
  "extractSumFromOutput s =
     (if number_scan s = [] then \<lparr>sum' = None, allNumbers = []\<rparr>
      else \<lparr>sum' = Some (number_value (last (number_scan s))),
            allNumbers = map number_value (number_scan s)\<rparr>)"
proof (cases "s = []")
  case True
  then show ?thesis by (simp add: extractSumFromOutput_def)
next
  case False
  have "number_scan s \<noteq> [] \<Longrightarrow>
    map number_value (number_scan s) ! (length (number_scan s) - Suc 0) = number_value (last (number_scan s))"
    by (simp add: last_conv_nth)
  then show ?thesis using False
    unfolding extractSumFromOutput_def match_g_def match_all_number Let_def number_scan_parse
    by simp
qed

lemma number_scan_Nil_iff: "number_scan s = [] \<longleftrightarrow> (\<forall>c\<in>set s. \<not> is_digit c)"
proof (induction s rule: number_scan.induct)
  case 1
  show ?case by simp
next
  case (2 c s)
  show ?case
  proof (cases "is_digit c")
    case True
    then show ?thesis by simp
  next
    case False
    show ?thesis
    proof (cases "c = 45 \<and> s \<noteq> [] \<and> is_digit (hd s)")
      case True
      then have "hd s \<in> set s" by simp
      then show ?thesis using True False by auto
    next
      case F2: False
      then show ?thesis using 2(3)[OF False F2] False by auto
    qed
  qed
qed


lemma number_value_digits:
  "number_value t = (if t \<noteq> [] \<and> hd t = 45 then - int (digits_value (tl t)) else int (digits_value t))"
  by (simp add: number_value_def digits_value_base10)


section \<open>Lemmas on strings and scores\<close>

lemmas rx_eval = hasPositiveCheck_def hasLoop_def rx_test_def POSITIVE_RX_1_def POSITIVE_RX_2_def
  LOOP_RX_def js_def prev_after_def next_unit_def is_word_opt_def is_word_def is_digit_def
  is_space_def

lemmas extract_eval = extract_unfold js_def is_digit_def number_value_digits digits_value_def

lemma js_includes_iff: "js_includes s t \<longleftrightarrow> (\<exists>a b. s = a @ t @ b)"
proof (induction s)
  case Nil
  show ?case by auto
next
  case (Cons c s)
  show ?case
  proof
    assume "js_includes (c # s) t"
    then consider "take (length t) (c # s) = t" | "js_includes s t" by auto
    then show "\<exists>a b. c # s = a @ t @ b"
    proof cases
      case 1
      then have "c # s = [] @ t @ drop (length t) (c # s)"
        by (metis append_Nil append_take_drop_id)
      then show ?thesis by blast
    next
      case 2
      then obtain a b where "s = a @ t @ b" using Cons by blast
      then have "c # s = (c # a) @ t @ b" by simp
      then show ?thesis by blast
    qed
  next
    assume "\<exists>a b. c # s = a @ t @ b"
    then obtain a b where ab: "c # s = a @ t @ b" by blast
    show "js_includes (c # s) t"
    proof (cases a)
      case Nil
      then have "take (length t) (c # s) = t" using ab by (metis append_Nil append_eq_conv_conj)
      then show ?thesis by simp
    next
      case (Cons x a')
      then have "s = a' @ t @ b" using ab by simp
      then show ?thesis using Cons.IH by auto
    qed
  qed
qed

lemma qualityScore_cases: "qualityScore codeSource \<in> {0, 10, 20}"
  by (simp add: qualityScore_def Let_def)

lemma round_clamp_int:
  "0 \<le> n \<Longrightarrow> n \<le> 100 \<Longrightarrow> Math_round (max 0 (min 100 (of_int n))) = n"
proof -
  assume a: "0 \<le> n" "n \<le> 100"
  have "max 0 (min 100 (of_int n :: rat)) = of_int n" using a by (simp add: max_def min_def)
  moreover have "\<lfloor>(of_int n :: rat) + 1 / 2\<rfloor> = n" by linarith
  ultimately show ?thesis by (simp add: Math_round_def)
qed


lemma written_concat: "written ws = concat ws"
proof -
  have "foldl (\<lambda>out s. out @ s) acc ws = acc @ concat ws" for acc
    by (induction ws arbitrary: acc) auto
  then show ?thesis by (simp add: written_def)
qed


lemma js_includes_sublist: "js_includes s t \<longleftrightarrow> sublist t s"
  by (simp add: js_includes_iff sublist_def) 

lemma join_Cons: "join (x # xs) sep = x @ concat (map (\<lambda>y. sep @ y) xs)"
  by (induction xs arbitrary: x) auto

lemma join_space: "join xs (js '' '') = space_separated xs"
  by (cases xs) (simp_all add: join_Cons js_def)

lemma WRONG_SUM_MARK_nonempty: "WRONG_SUM_MARK \<noteq> []"
  by (simp add: WRONG_SUM_MARK_def)

lemma anyWrongSum_spec:
  "anyWrongSum rs \<longleftrightarrow> (\<exists>t\<in>set rs. \<not> passed t \<and> sublist WRONG_SUM_MARK (notes t))"
proof -
  have "sublist WRONG_SUM_MARK n \<Longrightarrow> n \<noteq> []" for n
    using WRONG_SUM_MARK_nonempty by auto
  then show ?thesis
    by (auto simp: anyWrongSum_def list_ex_iff js_includes_sublist)
qed

lemma failedValidation_spec:
  "failedValidation rs \<longleftrightarrow> (\<exists>t\<in>set rs. isValidationTest t \<and> \<not> passed t)"
  by (auto simp: failedValidation_def list_ex_iff)

lemma feedback_hints_spec: "feedback_hints rs src = spec_hints rs src"
  unfolding feedback_hints_def spec_hints_def anyWrongSum_spec failedValidation_spec Let_def
  by auto

lemma first_failed_hd:
  "(length rs > 0 \<and> compilationFailed (rs ! 0)) \<longleftrightarrow> (rs \<noteq> [] \<and> compilationFailed (hd rs))"
  by (cases rs) auto


lemma totalPoints_sum: "totalPoints rs = all_points rs"
proof -
  have "foldl (\<lambda>sum test. sum + points test) a rs = a + sum_list (map points rs)" for a
    by (induction rs arbitrary: a) auto
  then show ?thesis by (simp add: totalPoints_def all_points_def)
qed

lemma earnedPoints_sum: "earnedPoints rs = passed_points rs"
proof -
  have "foldl (\<lambda>sum test. sum + (if passed test then points test else 0)) a rs
        = a + sum_list (map points (filter passed rs))" for a
    by (induction rs arbitrary: a) auto
  then show ?thesis by (simp add: earnedPoints_def passed_points_def)
qed

lemma functionalScore_guarded: "functionalScore rs = Some (guarded_functional rs)"
  by (simp add: functionalScore_def guarded_functional_def totalPoints_sum earnedPoints_sum js_div_def)

lemma qualityScore_spec: "qualityScore src = spec_quality src"
  by (simp add: qualityScore_def spec_quality_def Let_def)

lemma Math_round_round: "Math_round x = round x"
  by (simp add: Math_round_def round_def)

lemma round_clamp_range: "0 \<le> round (max 0 (min 100 (x::rat))) \<and> round (max 0 (min 100 x)) \<le> 100"
proof -
  define y where "y = max 0 (min 100 x)"
  have y: "0 \<le> y" "y \<le> 100" by (simp_all add: y_def)
  have "0 \<le> round y" using y(1) by (simp add: round_def) 
  moreover have "round y \<le> 100" using y(2) by (simp add: round_def floor_le_iff) 
  ultimately show ?thesis by (simp add: y_def)
qed

lemma calculateScore_not_failed:
  "\<not> (rs \<noteq> [] \<and> compilationFailed (hd rs)) \<Longrightarrow>
   calculateScore rs src = Some (of_int (round (max 0 (min 100 (guarded_functional rs + spec_quality src)))))"
  using first_failed_hd[of rs]
  by (auto simp add: calculateScore_def functionalScore_guarded qualityScore_spec Math_round_round)


lemma run_loop_eq:
  "run_loop E code cases acc =
     acc @ map (\<lambda>tc. judged_result tc (runCProgram E code (input tc)))
               (takeWhile (run_ok E code) cases)
         @ (case dropWhile (run_ok E code) cases of
              [] \<Rightarrow> []
            | tc # _ \<Rightarrow> [failed_result tc (runCProgram E code (input tc))])"
  by (induction cases arbitrary: acc) (simp_all add: run_ok_def Let_def)

lemma runAllTests_eq:
  "runAllTests E code cases =
     map (\<lambda>tc. judged_result tc (runCProgram E code (input tc)))
         (takeWhile (run_ok E code) cases)
     @ (case dropWhile (run_ok E code) cases of
          [] \<Rightarrow> []
        | tc # _ \<Rightarrow> [failed_result tc (runCProgram E code (input tc))])"
  by (simp add: runAllTests_def run_loop_eq)

lemma judged_not_failed: "\<not> compilationFailed (judged_result tc ex)"
  by (simp add: judged_result_def Let_def)

lemma failed_failed: "compilationFailed (failed_result tc ex)"
  by (simp add: failed_result_def)

lemma runAllTests_failed_last:
  assumes "i < length (runAllTests E code cases)"
    and "compilationFailed (runAllTests E code cases ! i)"
  shows "Suc i = length (runAllTests E code cases)"
proof -
  define judged where "judged = map (\<lambda>tc. judged_result tc (runCProgram E code (input tc)))
                            (takeWhile (run_ok E code) cases)"
  define rest where "rest = (case dropWhile (run_ok E code) cases of
          [] \<Rightarrow> []
        | tc # _ \<Rightarrow> [failed_result tc (runCProgram E code (input tc))])"
  have eq: "runAllTests E code cases = judged @ rest"
    by (simp add: runAllTests_eq judged_def rest_def)
  have len: "length rest \<le> 1" by (simp add: rest_def split: list.splits)
  have nf: "\<forall>r\<in>set judged. \<not> compilationFailed r" by (auto simp: judged_def judged_not_failed)
  have "\<not> i < length judged"
  proof
    assume "i < length judged"
    then have "(judged @ rest) ! i \<in> set judged" by (simp add: nth_append)
    then show False using nf assms(2) eq by simp
  qed
  then show ?thesis using assms(1) len eq by simp
qed

lemma runAllTests_first_failed:
  assumes "runAllTests E code cases \<noteq> []"
    and "compilationFailed (hd (runAllTests E code cases))"
  shows "length (runAllTests E code cases) = 1"
proof -
  have "0 < length (runAllTests E code cases)" using assms(1) by simp
  moreover have "compilationFailed (runAllTests E code cases ! 0)"
    using assms by (simp add: hd_conv_nth)
  ultimately have "Suc 0 = length (runAllTests E code cases)"
    by (rule runAllTests_failed_last)
  then show ?thesis by simp
qed

lemma late_trap_run:
  "runAllTests late_trap_engine code generateTestCases =
     [judged_result (generateTestCases ! 0)
        (runCProgram late_trap_engine code (input (generateTestCases ! 0))),
      failed_result (generateTestCases ! 1)
        (runCProgram late_trap_engine code (input (generateTestCases ! 1)))]"
  by (simp add: runAllTests_def generateTestCases_def runCProgram_def late_trap_engine_def Let_def)


lemma trap_run:
  "runAllTests trap_engine (js ''int'') generateTestCases =
     [failed_result (generateTestCases ! 0)
        (runCProgram trap_engine (js ''int'') (input (generateTestCases ! 0)))]"
  by (simp add: runAllTests_def generateTestCases_def runCProgram_def trap_engine_def Let_def js_def)


lemma sample_source_checks: "hasLoop sample_source" "hasPositiveCheck sample_source"
  by (simp_all add: sample_source_def rx_eval)

section \<open>The matcher and the declarative reading agree\<close>

lemma prev_after_append: "prev_after (prev_after p u) v = prev_after p (u @ v)"
  by (simp add: prev_after_def)

lemma star_cursors_iff:
  "(q, s') \<in> set (star_cursors c (p, s)) \<longleftrightarrow>
     (\<exists>w. s = w @ s' \<and> q = prev_after p w \<and> (\<forall>x\<in>set w. c x))"
proof (induction s arbitrary: p)
  case Nil
  show ?case by (auto simp: prev_after_def)
next
  case (Cons x s)
  show ?case
  proof
    assume "(q, s') \<in> set (star_cursors c (p, x # s))"
    then consider (here) "q = p" "s' = x # s"
      | (later) "c x" "(q, s') \<in> set (star_cursors c (Some x, s))"
      by (auto split: if_splits)
    then show "\<exists>w. x # s = w @ s' \<and> q = prev_after p w \<and> (\<forall>x\<in>set w. c x)"
    proof cases
      case here
      then have "x # s = [] @ s' \<and> q = prev_after p [] \<and> (\<forall>x\<in>set []. c x)"
        by (simp add: prev_after_def)
      then show ?thesis by blast
    next
      case later
      then obtain w where w: "s = w @ s'" "q = prev_after (Some x) w" "\<forall>y\<in>set w. c y"
        using Cons.IH by blast
      then have "x # s = (x # w) @ s' \<and> q = prev_after p (x # w) \<and> (\<forall>y\<in>set (x # w). c y)"
        using later(1) by (simp add: prev_after_def)
      then show ?thesis by blast
    qed
  next
    assume "\<exists>w. x # s = w @ s' \<and> q = prev_after p w \<and> (\<forall>x\<in>set w. c x)"
    then obtain w where w: "x # s = w @ s'" "q = prev_after p w" "\<forall>y\<in>set w. c y" by blast
    show "(q, s') \<in> set (star_cursors c (p, x # s))"
    proof (cases w)
      case Nil
      then have "s' = x # s" "q = p" using w by (simp_all add: prev_after_def)
      then show ?thesis by simp
    next
      case (Cons y w')
      then have "s = w' @ s'" "y = x" "c x" "\<forall>y\<in>set w'. c y" "q = prev_after (Some x) w'"
        using w by (auto simp: prev_after_def)
      then have "(q, s') \<in> set (star_cursors c (Some x, s))" using Cons.IH by blast
      then show ?thesis using \<open>c x\<close> by simp
    qed
  qed
qed

lemma rx_match_iff:
  "(q, s') \<in> set (rx_match r (p, s)) \<longleftrightarrow>
     (\<exists>w. s = w @ s' \<and> q = prev_after p w \<and> rx_accepts r p w s')"
proof (induction r arbitrary: p s q s')
  case (RLit cs)
  have "take (length cs) s = cs \<Longrightarrow> s = cs @ drop (length cs) s"
    by (metis append_take_drop_id)
  then show ?case by (auto simp: append_eq_conv_conj)
next
  case (RStar c)
  show ?case by (simp add: star_cursors_iff)
next
  case (RPlus c)
  show ?case
  proof (cases s)
    case Nil
    then show ?thesis by auto
  next
    case (Cons x t)
    show ?thesis
    proof
      assume "(q, s') \<in> set (rx_match (RPlus c) (p, s))"
      then have cx: "c x" and m: "(q, s') \<in> set (star_cursors c (Some x, t))"
        using Cons by (auto split: if_splits)
      then obtain w where w: "t = w @ s'" "q = prev_after (Some x) w" "\<forall>y\<in>set w. c y"
        using star_cursors_iff by blast
      then have "s = (x # w) @ s' \<and> q = prev_after p (x # w) \<and> rx_accepts (RPlus c) p (x # w) s'"
        using cx Cons by (simp add: prev_after_def)
      then show "\<exists>w. s = w @ s' \<and> q = prev_after p w \<and> rx_accepts (RPlus c) p w s'" by blast
    next
      assume "\<exists>w. s = w @ s' \<and> q = prev_after p w \<and> rx_accepts (RPlus c) p w s'"
      then obtain w where w: "s = w @ s'" "q = prev_after p w" "w \<noteq> []" "\<forall>y\<in>set w. c y"
        by auto
      then obtain w' where w': "w = x # w'" using Cons by (cases w) auto
      then have "t = w' @ s' \<and> q = prev_after (Some x) w' \<and> (\<forall>y\<in>set w'. c y)"
        using w Cons by (auto simp: prev_after_def)
      then have "(q, s') \<in> set (star_cursors c (Some x, t))" using star_cursors_iff by blast
      moreover have "c x" using w w' by simp
      ultimately show "(q, s') \<in> set (rx_match (RPlus c) (p, s))" using Cons by simp
    qed
  qed
next
  case (ROpt r)
  show ?case using ROpt[of q s' p s] by (auto simp: prev_after_def)
next
  case RWordB
  show ?case by (auto simp: prev_after_def)
next
  case (RAlt a b)
  show ?case using RAlt.IH(1)[of q s' p s] RAlt.IH(2)[of q s' p s] by auto
next
  case (RSeq a b)
  show ?case
  proof
    assume "(q, s') \<in> set (rx_match (RSeq a b) (p, s))"
    then obtain q1 s1 where 1: "(q1, s1) \<in> set (rx_match a (p, s))"
      and 2: "(q, s') \<in> set (rx_match b (q1, s1))" by auto
    obtain u where u: "s = u @ s1" "q1 = prev_after p u" "rx_accepts a p u s1"
      using 1 RSeq.IH(1) by blast
    obtain v where v: "s1 = v @ s'" "q = prev_after q1 v" "rx_accepts b q1 v s'"
      using 2 RSeq.IH(2) by blast
    have "s = (u @ v) @ s' \<and> q = prev_after p (u @ v) \<and> rx_accepts (RSeq a b) p (u @ v) s'"
      using u v by (auto simp: prev_after_append)
    then show "\<exists>w. s = w @ s' \<and> q = prev_after p w \<and> rx_accepts (RSeq a b) p w s'" by blast
  next
    assume "\<exists>w. s = w @ s' \<and> q = prev_after p w \<and> rx_accepts (RSeq a b) p w s'"
    then obtain u v where uv: "s = (u @ v) @ s'" "q = prev_after p (u @ v)"
      "rx_accepts a p u (v @ s')" "rx_accepts b (prev_after p u) v s'" by auto
    have 1: "(prev_after p u, v @ s') \<in> set (rx_match a (p, s))"
      using uv RSeq.IH(1)[of "prev_after p u" "v @ s'" p s] by auto
    have 2: "(q, s') \<in> set (rx_match b (prev_after p u, v @ s'))"
      using uv RSeq.IH(2)[of q s' "prev_after p u" "v @ s'"] by (auto simp: prev_after_append)
    show "(q, s') \<in> set (rx_match (RSeq a b) (p, s))" using 1 2 by auto
  qed
qed

lemma rx_match_nonempty_iff:
  "rx_match r (p, s) \<noteq> [] \<longleftrightarrow> (\<exists>w post. s = w @ post \<and> rx_accepts r p w post)"
proof -
  have "rx_match r (p, s) \<noteq> [] \<longleftrightarrow> (\<exists>q s'. (q, s') \<in> set (rx_match r (p, s)))"
    by (cases "rx_match r (p, s)") auto
  then show ?thesis by (simp add: rx_match_iff) blast
qed

lemma rx_search_iff:
  "rx_search r p s \<longleftrightarrow>
     (\<exists>pre w post. s = pre @ w @ post \<and> rx_accepts r (prev_after p pre) w post)"
proof (induction s arbitrary: p)
  case Nil
  show ?case by (simp add: rx_match_nonempty_iff prev_after_def)
next
  case (Cons c s)
  show ?case
  proof
    assume "rx_search r p (c # s)"
    then consider "rx_match r (p, c # s) \<noteq> []" | "rx_search r (Some c) s" by auto
    then show "\<exists>pre w post. c # s = pre @ w @ post \<and> rx_accepts r (prev_after p pre) w post"
    proof cases
      case 1
      then obtain w post where "c # s = [] @ w @ post" "rx_accepts r (prev_after p []) w post"
        by (auto simp: rx_match_nonempty_iff prev_after_def)
      then show ?thesis by blast
    next
      case 2
      then obtain pre w post where "s = pre @ w @ post" "rx_accepts r (prev_after (Some c) pre) w post"
        using Cons.IH by blast
      then have "c # s = (c # pre) @ w @ post" "rx_accepts r (prev_after p (c # pre)) w post"
        by (auto simp: prev_after_def)
      then show ?thesis by blast
    qed
  next
    assume "\<exists>pre w post. c # s = pre @ w @ post \<and> rx_accepts r (prev_after p pre) w post"
    then obtain pre w post where a: "c # s = pre @ w @ post" "rx_accepts r (prev_after p pre) w post"
      by blast
    show "rx_search r p (c # s)"
    proof (cases pre)
      case Nil
      then have "rx_match r (p, c # s) \<noteq> []"
        using a by (auto simp: rx_match_nonempty_iff prev_after_def)
      then show ?thesis by simp
    next
      case (Cons x pre')
      then have "s = pre' @ w @ post" "rx_accepts r (prev_after (Some c) pre') w post"
        using a by (auto simp: prev_after_def)
      then have "rx_search r (Some c) s" using Cons.IH by blast
      then show ?thesis by simp
    qed
  qed
qed

lemma rx_test_iff:
  "rx_test r s \<longleftrightarrow>
     (\<exists>pre w post. s = pre @ w @ post \<and> rx_accepts r (prev_after None pre) w post)"
  by (simp add: rx_test_def rx_search_iff)


lemma accepts_seq_wordb:
  "rx_accepts (RSeq RWordB r) p w rest \<longleftrightarrow>
     (is_word_opt p \<noteq> is_word_opt (next_unit (w @ rest)) \<and> rx_accepts r p w rest)"
  by (auto simp: prev_after_def)

lemma accepts_seq_lit:
  "rx_accepts (RSeq (RLit a) r) p w rest \<longleftrightarrow>
     (\<exists>v. w = a @ v \<and> rx_accepts r (prev_after p a) v rest)"
  by auto

lemma accepts_seq_star:
  "rx_accepts (RSeq (RStar c) r) p w rest \<longleftrightarrow>
     (\<exists>u v. w = u @ v \<and> (\<forall>x\<in>set u. c x) \<and> rx_accepts r (prev_after p u) v rest)"
  by auto

lemma accepts_cmp:
  "rx_accepts (rx_seq [RLit a, RStar is_space, RLit b]) p w rest \<longleftrightarrow>
     (\<exists>gap. w = a @ gap @ b \<and> (\<forall>c\<in>set gap. is_space c))"
  by (auto simp: accepts_seq_lit accepts_seq_star)

lemma accepts_num_cmp:
  "rx_accepts (rx_seq [RLit n, RStar is_space, RLit a, RStar is_space, RLit b]) p w rest \<longleftrightarrow>
     (\<exists>g gap. w = n @ g @ a @ gap @ b \<and> (\<forall>c\<in>set g. is_space c) \<and> (\<forall>c\<in>set gap. is_space c))"
    (is "?L \<longleftrightarrow> ?R")
proof
  assume ?L
  then show ?R by (auto simp: accepts_seq_lit accepts_seq_star)
next
  assume ?R
  then show ?L
    unfolding rx_seq.simps accepts_seq_lit accepts_seq_star rx_accepts.simps by blast
qed

lemma accepts_if_head:
  assumes indep: "\<And>p v. rx_accepts T p v rest = Q v"
  shows "rx_accepts (rx_seq [RWordB, RLit (js ''if''), RStar is_space, RLit (js ''(''),
                             RStar (\<lambda>c. c \<noteq> 41), T]) p w rest \<longleftrightarrow>
     (\<not> is_word_opt p \<and>
      (\<exists>ws body tail. w = js ''if'' @ ws @ js ''('' @ body @ tail
          \<and> (\<forall>c\<in>set ws. is_space c) \<and> 41 \<notin> set body \<and> Q tail))"
    (is "?L \<longleftrightarrow> ?R")
proof
  assume ?L
  then have b: "is_word_opt p \<noteq> is_word_opt (next_unit (w @ rest))"
    and "\<exists>v. w = js ''if'' @ v \<and> (\<exists>ws v2. v = ws @ v2 \<and> (\<forall>c\<in>set ws. is_space c) \<and>
            (\<exists>v3. v2 = js ''('' @ v3 \<and> (\<exists>body tail. v3 = body @ tail \<and> (\<forall>c\<in>set body. c \<noteq> 41)
               \<and> Q tail)))"
    by (simp_all add: accepts_seq_wordb accepts_seq_lit accepts_seq_star indep)
  then obtain ws body tail where w: "w = js ''if'' @ ws @ js ''('' @ body @ tail"
    "\<forall>c\<in>set ws. is_space c" "\<forall>c\<in>set body. c \<noteq> 41" "Q tail"
    by auto
  have "next_unit (w @ rest) = Some 105" by (simp add: w(1) js_def next_unit_def)
  then have "\<not> is_word_opt p" using b by (simp add: is_word_opt_def is_word_def)
  moreover have "41 \<notin> set body" using w(3) by auto
  ultimately show ?R using w(1,2,4) by blast
next
  assume ?R
  then obtain ws body tail where w: "\<not> is_word_opt p" "w = js ''if'' @ ws @ js ''('' @ body @ tail"
    "\<forall>c\<in>set ws. is_space c" "41 \<notin> set body" "Q tail" by blast
  have "next_unit (w @ rest) = Some 105" by (simp add: w(2) js_def next_unit_def)
  then have b: "is_word_opt p \<noteq> is_word_opt (next_unit (w @ rest))"
    using w(1) by (simp add: is_word_opt_def is_word_def)
  have body: "\<forall>c\<in>set body. c \<noteq> 41" using w(4) by auto
  show ?L
    unfolding rx_seq.simps accepts_seq_wordb accepts_seq_lit accepts_seq_star indep
    using b w(2,3,5) body by blast
qed


lemma accepts_rx1:
  "rx_accepts POSITIVE_RX_1 p w rest \<longleftrightarrow>
     (\<not> is_word_opt p \<and>
      (\<exists>ws body tail. w = js ''if'' @ ws @ js ''('' @ body @ tail
          \<and> (\<forall>c\<in>set ws. is_space c) \<and> 41 \<notin> set body \<and> tail_1 tail))"
  unfolding POSITIVE_RX_1_def
  by (rule accepts_if_head)
     (simp only: rx_alt.simps rx_accepts.simps(6) accepts_cmp accepts_num_cmp tail_1_def)

lemma accepts_rx2:
  "rx_accepts POSITIVE_RX_2 p w rest \<longleftrightarrow>
     (\<not> is_word_opt p \<and>
      (\<exists>ws body tail. w = js ''if'' @ ws @ js ''('' @ body @ tail
          \<and> (\<forall>c\<in>set ws. is_space c) \<and> 41 \<notin> set body \<and> tail_2 tail))"
proof -
  have e: "POSITIVE_RX_2 = rx_seq [RWordB, RLit (js ''if''), RStar is_space, RLit (js ''(''),
             RStar (\<lambda>c. c \<noteq> 41), rx_seq [RLit (js ''>''), RStar is_space, RLit (js ''0'')]]"
    by (simp add: POSITIVE_RX_2_def)
  show ?thesis
    unfolding e by (rule accepts_if_head) (simp only: accepts_cmp tail_2_def)
qed

lemma not_word_prev: "\<not> is_word_opt (prev_after None pre) \<longleftrightarrow> (pre = [] \<or> \<not> is_word (last pre))"
  by (simp add: prev_after_def is_word_opt_def)

lemma space_not_paren: "is_space c \<Longrightarrow> c \<noteq> 41"
  by (auto simp: is_space_def)

lemma tail_to_comparison:
  assumes body: "41 \<notin> set body" and tail: "tail_1 tail \<or> tail_2 tail"
  shows "\<exists>body' op gap d. body @ tail = body' @ op @ gap @ d \<and> 41 \<notin> set body'
          \<and> (\<forall>c\<in>set gap. is_space c) \<and> (op, d) \<in> code_comparisons"
proof -
  have num: "41 \<notin> set (body @ js ''num'' @ g)" if "\<forall>c\<in>set g. is_space c" for g
    using body that space_not_paren by (auto simp: js_def)
  have c1: "(js ''<='', js ''0'') \<in> code_comparisons" by (simp add: code_comparisons_def)
  have c2: "(js ''<'', js ''1'') \<in> code_comparisons" by (simp add: code_comparisons_def)
  have c3: "(js ''>'', js ''0'') \<in> code_comparisons" by (simp add: code_comparisons_def)
  have step: "\<exists>body' op gap d. body @ tail = body' @ op @ gap @ d \<and> 41 \<notin> set body'
          \<and> (\<forall>c\<in>set gap. is_space c) \<and> (op, d) \<in> code_comparisons"
    if "body @ tail = b @ op @ gap @ d" "41 \<notin> set b" "\<forall>c\<in>set gap. is_space c"
       "(op, d) \<in> code_comparisons" for b op gap d
    using that by blast
  from tail show ?thesis
  proof
    assume "tail_1 tail"
    then consider
      (a) gap where "tail = js ''<='' @ gap @ js ''0''" "\<forall>c\<in>set gap. is_space c"
    | (b) gap where "tail = js ''<'' @ gap @ js ''1''" "\<forall>c\<in>set gap. is_space c"
    | (c) g gap where "tail = js ''num'' @ g @ js ''<='' @ gap @ js ''0''"
          "\<forall>c\<in>set g. is_space c" "\<forall>c\<in>set gap. is_space c"
    | (d) g gap where "tail = js ''num'' @ g @ js ''<'' @ gap @ js ''1''"
          "\<forall>c\<in>set g. is_space c" "\<forall>c\<in>set gap. is_space c"
      unfolding tail_1_def by (elim disjE exE conjE)
    then show ?thesis
    proof cases
      case a
      have "body @ tail = body @ js ''<='' @ gap @ js ''0''" using a by simp
      then show ?thesis using body a(2) c1 by (rule step)
    next
      case b
      have "body @ tail = body @ js ''<'' @ gap @ js ''1''" using b by simp
      then show ?thesis using body b(2) c2 by (rule step)
    next
      case c
      have "body @ tail = (body @ js ''num'' @ g) @ js ''<='' @ gap @ js ''0''" using c by simp
      then show ?thesis using num[OF c(2)] c(3) c1 by (rule step)
    next
      case d
      have "body @ tail = (body @ js ''num'' @ g) @ js ''<'' @ gap @ js ''1''" using d by simp
      then show ?thesis using num[OF d(2)] d(3) c2 by (rule step)
    qed
  next
    assume "tail_2 tail"
    then obtain gap where e: "tail = js ''>'' @ gap @ js ''0''" "\<forall>c\<in>set gap. is_space c"
      unfolding tail_2_def by (elim exE conjE)
    have "body @ tail = body @ js ''>'' @ gap @ js ''0''" using e by simp
    then show ?thesis using body e(2) c3 by (rule step)
  qed
qed

lemma comparison_to_tail:
  assumes gap: "\<forall>c\<in>set gap. is_space c" and cmp: "(op, d) \<in> code_comparisons"
  shows "tail_1 (op @ gap @ d) \<or> tail_2 (op @ gap @ d)"
proof -
  consider "op = js ''<=''" "d = js ''0''" | "op = js ''<''" "d = js ''1''"
    | "op = js ''>''" "d = js ''0''"
    using cmp by (auto simp: code_comparisons_def)
  then show ?thesis
  proof cases
    case 1
    have "\<exists>g. op @ gap @ d = js ''<='' @ g @ js ''0'' \<and> (\<forall>c\<in>set g. is_space c)"
      using 1 gap by blast
    then show ?thesis by (simp only: tail_1_def) blast
  next
    case 2
    have "\<exists>g. op @ gap @ d = js ''<'' @ g @ js ''1'' \<and> (\<forall>c\<in>set g. is_space c)"
      using 2 gap by blast
    then show ?thesis by (simp only: tail_1_def) blast
  next
    case 3
    have "\<exists>g. op @ gap @ d = js ''>'' @ g @ js ''0'' \<and> (\<forall>c\<in>set g. is_space c)"
      using 3 gap by blast
    then show ?thesis by (simp only: tail_2_def) blast
  qed
qed

lemma accepts_to_pattern:
  assumes src: "src = pre @ w @ post" and pre: "\<not> is_word_opt (prev_after None pre)"
    and w: "w = js ''if'' @ ws @ js ''('' @ body @ tail"
    and ws: "\<forall>c\<in>set ws. is_space c" and body: "41 \<notin> set body"
    and tail: "tail_1 tail \<or> tail_2 tail"
  shows "guard_pattern code_comparisons src"
proof -
  obtain body' op gap d where b: "body @ tail = body' @ op @ gap @ d" "41 \<notin> set body'"
    "\<forall>c\<in>set gap. is_space c" "(op, d) \<in> code_comparisons"
    using tail_to_comparison[OF body tail] by blast
  have s: "src = pre @ js ''if'' @ ws @ js ''('' @ body' @ op @ gap @ d @ post"
    using src w b(1) by simp
  have p: "pre = [] \<or> \<not> is_word (last pre)" using pre by (simp only: not_word_prev)
  show ?thesis
    unfolding guard_pattern_def
    by (intro exI[of _ pre] exI[of _ ws] exI[of _ body'] exI[of _ op] exI[of _ gap] exI[of _ d]
              exI[of _ post] conjI s p ws b(2) b(3) b(4))
qed

lemma hasPositiveCheck_pattern:
  "hasPositiveCheck src \<longleftrightarrow> guard_pattern code_comparisons src"
proof
  assume "hasPositiveCheck src"
  then have "rx_test POSITIVE_RX_1 src \<or> rx_test POSITIVE_RX_2 src"
    by (simp only: hasPositiveCheck_def)
  then show "guard_pattern code_comparisons src"
  proof
    assume "rx_test POSITIVE_RX_1 src"
    then obtain pre w post where src: "src = pre @ w @ post"
      and acc: "rx_accepts POSITIVE_RX_1 (prev_after None pre) w post"
      unfolding rx_test_iff by (elim exE conjE)
    obtain ws body tail where "\<not> is_word_opt (prev_after None pre)"
      "w = js ''if'' @ ws @ js ''('' @ body @ tail"
      "\<forall>c\<in>set ws. is_space c" "41 \<notin> set body" "tail_1 tail"
      using acc unfolding accepts_rx1 by (elim exE conjE)
    then show ?thesis using src accepts_to_pattern by blast
  next
    assume "rx_test POSITIVE_RX_2 src"
    then obtain pre w post where src: "src = pre @ w @ post"
      and acc: "rx_accepts POSITIVE_RX_2 (prev_after None pre) w post"
      unfolding rx_test_iff by (elim exE conjE)
    obtain ws body tail where "\<not> is_word_opt (prev_after None pre)"
      "w = js ''if'' @ ws @ js ''('' @ body @ tail"
      "\<forall>c\<in>set ws. is_space c" "41 \<notin> set body" "tail_2 tail"
      using acc unfolding accepts_rx2 by (elim exE conjE)
    then show ?thesis using src accepts_to_pattern by blast
  qed
next
  assume "guard_pattern code_comparisons src"
  then obtain pre ws body op gap d post where
    src: "src = pre @ js ''if'' @ ws @ js ''('' @ body @ op @ gap @ d @ post"
    and pre: "pre = [] \<or> \<not> is_word (last pre)"
    and ws: "\<forall>c\<in>set ws. is_space c" and body: "41 \<notin> set body"
    and gap: "\<forall>c\<in>set gap. is_space c" and cmp: "(op, d) \<in> code_comparisons"
    unfolding guard_pattern_def by (elim exE conjE)
  define tail where "tail = op @ gap @ d"
  define w where "w = js ''if'' @ ws @ js ''('' @ body @ tail"
  have t: "tail_1 tail \<or> tail_2 tail"
    unfolding tail_def using gap cmp by (rule comparison_to_tail)
  have s: "src = pre @ w @ post"
    using src by (simp add: tail_def w_def)
  have p: "\<not> is_word_opt (prev_after None pre)" using pre by (simp only: not_word_prev)
  have shape: "\<exists>ws body tl. w = js ''if'' @ ws @ js ''('' @ body @ tl
          \<and> (\<forall>c\<in>set ws. is_space c) \<and> 41 \<notin> set body \<and> P tl" if "P tail" for P
    using that ws body w_def by blast
  from t have "rx_accepts POSITIVE_RX_1 (prev_after None pre) w post
               \<or> rx_accepts POSITIVE_RX_2 (prev_after None pre) w post"
  proof
    assume "tail_1 tail"
    then show ?thesis unfolding accepts_rx1 using p shape[of tail_1] by blast
  next
    assume "tail_2 tail"
    then show ?thesis unfolding accepts_rx2 using p shape[of tail_2] by blast
  qed
  then show "hasPositiveCheck src"
    unfolding hasPositiveCheck_def rx_test_iff using s by blast
qed

lemma hints_distinct:
  "HINT_POSITIVE_CHECK \<noteq> HINT_SUM" "HINT_POSITIVE_CHECK \<noteq> HINT_VALIDATION"
  "HINT_POSITIVE_CHECK \<noteq> HINT_LOOP"
  by (simp_all add: HINT_POSITIVE_CHECK_def HINT_SUM_def HINT_VALIDATION_def HINT_LOOP_def)

section \<open>The scanner finds the maximal number texts\<close>































section \<open>The claims\<close>

text \<open>
  Claim C1, as stated, fails: when the engine fails on a later test case, the results
  before it stay in the sequence and the score is computed from them. The
  counterexample is an engine that passes the first test case and fails on the second:
  two results, the second a compilation failure, and a score of 60.
\<close>

theorem run_failure_first_counterexample:
  "length (runAllTests late_trap_engine sample_source generateTestCases) = 2
   \<and> compilationFailed (runAllTests late_trap_engine sample_source generateTestCases ! 1)
   \<and> calculateScore (runAllTests late_trap_engine sample_source generateTestCases) sample_source
       = Some 60"
proof -
  define r1 where "r1 = judged_result (generateTestCases ! 0)
                          (runCProgram late_trap_engine sample_source (input (generateTestCases ! 0)))"
  define r2 where "r2 = failed_result (generateTestCases ! 1)
                          (runCProgram late_trap_engine sample_source (input (generateTestCases ! 1)))"
  have run: "runAllTests late_trap_engine sample_source generateTestCases = [r1, r2]"
    by (simp add: late_trap_run r1_def r2_def)
  have out: "stdout (runCProgram late_trap_engine sample_source (input (generateTestCases ! 0)))
             = js ''sum = 15''"
    by (simp add: runCProgram_def late_trap_engine_def generateTestCases_def written_def)
  have ex: "extractSumFromOutput (js ''sum = 15'') = \<lparr>sum' = Some 15, allNumbers = [15]\<rparr>"
    by (simp add: extract_eval)
  have p1: "passed r1" "points r1 = 25" "\<not> compilationFailed r1"
    by (simp_all add: r1_def judged_result_def out ex compareSums_def Let_def)
       (simp_all add: generateTestCases_def)
  have p2: "\<not> passed r2" "points r2 = 25" "compilationFailed r2"
    by (simp_all add: r2_def failed_result_def generateTestCases_def)
  have g: "guarded_functional [r1, r2] = 40"
    using p1 p2 by (simp add: guarded_functional_def all_points_def passed_points_def)
  have q: "spec_quality sample_source = 20"
    using sample_source_checks by (simp add: spec_quality_def)
  have "calculateScore [r1, r2] sample_source = Some 60"
    using calculateScore_not_failed[of "[r1, r2]" sample_source] p1 by (simp add: g q)
  then show ?thesis using run p2 by simp
qed

text \<open>
  Claim C1, amended. If the first result of a run has \<open>compilationFailed\<close>, it is the
  only result, the score is 0 and the feedback is the compile-failure text; and a
  result with \<open>compilationFailed\<close> is always the last of its run.
\<close>

theorem run_failure_first:
  "(runAllTests E code cases \<noteq> [] \<and> compilationFailed (hd (runAllTests E code cases)) \<longrightarrow>
      length (runAllTests E code cases) = 1
      \<and> calculateScore (runAllTests E code cases) code = Some 0
      \<and> generateFeedback (runAllTests E code cases)
           (calculateScore (runAllTests E code cases) code) code = FEEDBACK_NOT_COMPILING)
   \<and> (\<forall>i < length (runAllTests E code cases).
         compilationFailed (runAllTests E code cases ! i) \<longrightarrow>
         Suc i = length (runAllTests E code cases))"
proof -
  have a: "calculateScore rs code = Some 0
           \<and> generateFeedback rs (calculateScore rs code) code = FEEDBACK_NOT_COMPILING"
    if "rs \<noteq> []" "compilationFailed (hd rs)" for rs
    using that first_failed_hd[of rs] by (simp add: calculateScore_def generateFeedback_def)
  show ?thesis using a runAllTests_first_failed runAllTests_failed_last by blast
qed

theorem run_failure_first_witness:
  "length (runAllTests trap_engine (js ''int'') generateTestCases) = 1
   \<and> calculateScore (runAllTests trap_engine (js ''int'') generateTestCases) (js ''int'') = Some 0
   \<and> generateFeedback (runAllTests trap_engine (js ''int'') generateTestCases)
         (calculateScore (runAllTests trap_engine (js ''int'') generateTestCases) (js ''int''))
         (js ''int'') = FEEDBACK_NOT_COMPILING
   \<and> Suc 1 = length (runAllTests late_trap_engine sample_source generateTestCases)"
proof -
  have i: "1 < length (runAllTests late_trap_engine sample_source generateTestCases)"
    by (simp add: late_trap_run)
  have f: "compilationFailed (runAllTests late_trap_engine sample_source generateTestCases ! 1)"
    by (simp add: late_trap_run failed_failed)
  have l: "Suc 1 = length (runAllTests late_trap_engine sample_source generateTestCases)"
    using run_failure_first[of late_trap_engine sample_source generateTestCases] i f by blast
  have h: "runAllTests trap_engine (js ''int'') generateTestCases \<noteq> []
           \<and> compilationFailed (hd (runAllTests trap_engine (js ''int'') generateTestCases))"
    by (simp add: trap_run failed_failed)
  show ?thesis
    using run_failure_first[of trap_engine "js ''int''" generateTestCases] h l by blast
qed

text \<open>
  Claim C2, as stated, fails in one point: the note of the failing result is the
  diagnostic text only when that text is not empty. The counterexample is an engine
  that throws the empty string: the diagnostic is empty and the note is the fixed text.
\<close>

theorem runAllTests_results_counterexample:
  "\<not> compiled (runCProgram silent_engine sample_source (input (hd generateTestCases)))
   \<and> length (runAllTests silent_engine sample_source generateTestCases) = 1
   \<and> compilationFailed (hd (runAllTests silent_engine sample_source generateTestCases))
   \<and> notes (hd (runAllTests silent_engine sample_source generateTestCases))
       \<noteq> compileOutput (runCProgram silent_engine sample_source (input (hd generateTestCases)))"
proof -
  have c: "runCProgram silent_engine sample_source inp =
           \<lparr>compiled = False, compileOutput = [], stdout = [], stderr = []\<rparr>" for inp
    by (simp add: runCProgram_def silent_engine_def written_def)
  have r: "runAllTests silent_engine sample_source generateTestCases
           = [failed_result (hd generateTestCases) (runCProgram silent_engine sample_source (input (hd generateTestCases)))]"
    by (simp add: runAllTests_def generateTestCases_def c)
  have n: "NOTE_NOT_COMPILED \<noteq> []" by (simp add: NOTE_NOT_COMPILED_def)
  show ?thesis using n by (simp add: r) (simp add: c failed_result_def)
qed

text \<open>
  Claim C2, amended. A run takes the test cases in order. The results are the judged
  results of the test cases before the first one on which the adapter fails, followed,
  if there is such a test case, by its failing result and nothing more. The failing
  result has \<open>passed\<close> false, no reported sum, \<open>compilationFailed\<close> true, and as
  note the diagnostic text, or the fixed text when the diagnostic is empty. A judged
  result has \<open>compilationFailed\<close> false and the verdict, note and sum that the parser
  and the judge give for the output.
\<close>

theorem runAllTests_results:
  "runAllTests E code cases =
     map (\<lambda>tc. judged_result tc (runCProgram E code (input tc)))
         (takeWhile (run_ok E code) cases)
     @ (case dropWhile (run_ok E code) cases of
          [] \<Rightarrow> []
        | tc # _ \<Rightarrow> [failed_result tc (runCProgram E code (input tc))])
   \<and> (\<forall>tc ex.
         \<not> passed (failed_result tc ex)
         \<and> reportedSum (failed_result tc ex) = None
         \<and> notes (failed_result tc ex)
             = (if compileOutput ex \<noteq> [] then compileOutput ex else NOTE_NOT_COMPILED)
         \<and> compilationFailed (failed_result tc ex)
         \<and> test_case.truncate (failed_result tc ex) = tc)
   \<and> (\<forall>tc ex.
         \<not> compilationFailed (judged_result tc ex)
         \<and> passed (judged_result tc ex)
             = comparison.passed (compareSums (expectedSum tc) (extractSumFromOutput (stdout ex)))
         \<and> notes (judged_result tc ex)
             = comparison.notes (compareSums (expectedSum tc) (extractSumFromOutput (stdout ex)))
         \<and> reportedSum (judged_result tc ex) = sum' (extractSumFromOutput (stdout ex))
         \<and> test_case.truncate (judged_result tc ex) = tc)"
  by (simp add: runAllTests_eq failed_result_def judged_result_def Let_def test_case.truncate_def)

theorem runAllTests_results_witness:
  "runAllTests trap_engine (js ''int'') generateTestCases =
     [failed_result (hd generateTestCases)
        (runCProgram trap_engine (js ''int'') (input (hd generateTestCases)))]
   \<and> notes (hd (runAllTests trap_engine (js ''int'') generateTestCases)) = js ''6:1 syntax error''"
proof -
  have ok: "\<not> run_ok trap_engine (js ''int'') tc" for tc
    by (simp add: run_ok_def runCProgram_def trap_engine_def js_def Let_def)
  have co: "compileOutput (runCProgram trap_engine (js ''int'') inp) = js ''6:1 syntax error''" for inp
    by (simp add: runCProgram_def trap_engine_def js_def Let_def)
  have ne: "js ''6:1 syntax error'' \<noteq> []" by (simp add: js_def)
  have 1: "runAllTests trap_engine (js ''int'') generateTestCases =
     [failed_result (hd generateTestCases)
        (runCProgram trap_engine (js ''int'') (input (hd generateTestCases)))]"
    using runAllTests_results[of trap_engine "js ''int''" generateTestCases] ok
    by (simp add: generateTestCases_def)
  have 2: "notes (failed_result tc ex) = (if compileOutput ex \<noteq> [] then compileOutput ex else NOTE_NOT_COMPILED)" for tc ex
    using runAllTests_results[of trap_engine "js ''int''" generateTestCases] by blast
  show ?thesis using 1 by (simp add: 2 co ne)
qed

text \<open>
  Claim C3, as stated, fails: for a result list whose points add up to zero the
  quotient of the claim is undefined, while the source returns the quality part. The
  counterexample is one passed result worth 0 points.
\<close>

theorem calculateScore_formula_counterexample:
  "\<not> compilationFailed (hd [zero_point_result])
   \<and> calculateScore [zero_point_result] (js ''for if(x>0)'') = Some 20
   \<and> spec_score [zero_point_result] (js ''for if(x>0)'') = None"
proof -
  have l: "hasLoop (js ''for if(x>0)'')" by (simp add: rx_eval)
  have p: "hasPositiveCheck (js ''for if(x>0)'')" by (simp add: rx_eval)
  have q: "qualityScore (js ''for if(x>0)'') = 20" using l p by (simp add: qualityScore_def)
  have f: "functionalScore [zero_point_result] = Some 0"
    by (simp add: functionalScore_def totalPoints_def zero_point_result_def)
  have n: "\<not> compilationFailed zero_point_result" by (simp add: zero_point_result_def)
  have c: "calculateScore [zero_point_result] (js ''for if(x>0)'') = Some 20"
    using round_clamp_int[of 20] by (simp add: calculateScore_def f q n)
  have s: "spec_score [zero_point_result] (js ''for if(x>0)'') = None"
    by (simp add: spec_score_def spec_functional_def js_div_def all_points_def zero_point_result_def)
  show ?thesis using c s n by simp
qed

text \<open>
  Claim C3, amended. When the first result is not a compilation failure, the score is
  the sum of the functional and the quality part, clamped to 0..100 and rounded, where
  the functional part is 80 times the points of the passed results over the points of
  all results when that total is positive, and 0 otherwise; with a positive total this
  is the formula of the claim. The score is an integer from 0 to 100.
\<close>

theorem calculateScore_formula:
  assumes "\<not> (rs \<noteq> [] \<and> compilationFailed (hd rs))"
  shows "calculateScore rs src
           = Some (of_int (round (max 0 (min 100 (guarded_functional rs + spec_quality src)))))
         \<and> (0 < all_points rs \<longrightarrow> calculateScore rs src = spec_score rs src)
         \<and> (\<exists>n::int. 0 \<le> n \<and> n \<le> 100 \<and> calculateScore rs src = Some (of_int n))"
proof -
  have 1: "calculateScore rs src
           = Some (of_int (round (max 0 (min 100 (guarded_functional rs + spec_quality src)))))"
    using assms by (rule calculateScore_not_failed)
  have 2: "0 < all_points rs \<Longrightarrow> calculateScore rs src = spec_score rs src"
    by (simp add: 1 spec_score_def spec_functional_def js_div_def guarded_functional_def)
  have 3: "\<exists>n::int. 0 \<le> n \<and> n \<le> 100 \<and> calculateScore rs src = Some (of_int n)"
    using round_clamp_range[of "guarded_functional rs + spec_quality src"] 1 by blast
  show ?thesis using 1 2 3 by blast
qed

theorem calculateScore_formula_witness:
  "calculateScore [passing_result] (js ''for if(x>0)'') = Some 100
   \<and> spec_score [passing_result] (js ''for if(x>0)'') = Some 100
   \<and> calculateScore [passing_result] [] = Some 80"
proof -
  have n: "\<not> ([passing_result] \<noteq> [] \<and> compilationFailed (hd [passing_result]))"
    by (simp add: passing_result_def)
  have pos: "0 < all_points [passing_result]"
    by (simp add: all_points_def passing_result_def)
  have l: "hasLoop (js ''for if(x>0)'')" by (simp add: rx_eval)
  have p: "hasPositiveCheck (js ''for if(x>0)'')" by (simp add: rx_eval)
  have nl: "\<not> hasLoop []" by (simp add: rx_eval)
  have np: "\<not> hasPositiveCheck []" by (simp add: rx_eval)
  have g: "guarded_functional [passing_result] = 80"
    by (simp add: guarded_functional_def all_points_def passed_points_def passing_result_def)
  have q: "spec_quality (js ''for if(x>0)'') = 20" using l p by (simp add: spec_quality_def)
  have q0: "spec_quality [] = 0" using nl np by (simp add: spec_quality_def)
  have 1: "calculateScore [passing_result] (js ''for if(x>0)'') = Some 100"
    using calculateScore_formula[OF n, of "js ''for if(x>0)''"] by (simp add: g q)
  have 2: "spec_score [passing_result] (js ''for if(x>0)'') = Some 100"
    using calculateScore_formula[OF n, of "js ''for if(x>0)''"] pos 1 by simp
  have 3: "calculateScore [passing_result] [] = Some 80"
    using calculateScore_formula[OF n, of "[]"] by (simp add: g q0)
  show ?thesis using 1 2 3 by simp
qed





text \<open>
  Claim C6. The execution adapter always yields an outcome. When the engine returns,
  the outcome is a success with everything written and a diagnostic that contains the
  exit code; when the engine throws, it is a failure whose diagnostic is the message of
  what was thrown (the \<open>message\<close> of an error object when it has one, the thrown
  string itself otherwise) and whose output is what was written until then. The engine
  is taken to return or throw: a call that never ends is outside the model.
\<close>

theorem runCProgram_outcome:
  "(\<forall>exitCode ws. JSCPP_run cSource inp = Returned exitCode ws \<longrightarrow>
      runCProgram JSCPP_run cSource inp =
        \<lparr>compiled = True,
         compileOutput = js ''Compilation/execution successful (exit code ''
                         @ Number_toString exitCode @ js '')'',
         stdout = concat ws, stderr = []\<rparr>
      \<and> js_includes (compileOutput (runCProgram JSCPP_run cSource inp)) (Number_toString exitCode))
   \<and> (\<forall>error ws. JSCPP_run cSource inp = Threw error ws \<longrightarrow>
      runCProgram JSCPP_run cSource inp =
        \<lparr>compiled = False, compileOutput = error_message error,
         stdout = concat ws, stderr = error_message error\<rparr>)
   \<and> (\<forall>n m. m \<noteq> [] \<longrightarrow> error_message (Thrown_Error n m) = m)
   \<and> (\<forall>s. error_message (Thrown_String s) = s)
   \<and> (compiled (runCProgram JSCPP_run cSource inp)
        \<longleftrightarrow> (\<exists>exitCode ws. JSCPP_run cSource inp = Returned exitCode ws))"
proof -
  have inc: "js_includes (a @ x @ b) x" for a b x :: jsstring
    unfolding js_includes_iff by blast
  show ?thesis
    by (cases "JSCPP_run cSource inp") (simp_all add: runCProgram_def written_concat inc Let_def)
qed

theorem runCProgram_outcome_witness:
  "runCProgram trap_engine (js ''ok'') [] =
     \<lparr>compiled = True,
      compileOutput = js ''Compilation/execution successful (exit code 0)'',
      stdout = js ''sum = 15'', stderr = []\<rparr>
   \<and> runCProgram trap_engine (js ''int'') [] =
     \<lparr>compiled = False, compileOutput = js ''6:1 syntax error'',
      stdout = js ''Enter'', stderr = js ''6:1 syntax error''\<rparr>"
proof -
  have 1: "trap_engine (js ''ok'') [] = Returned 0 [js ''sum = '', js ''15'']"
    by (simp add: trap_engine_def)
  have 2: "trap_engine (js ''int'') [] =
           Threw (Thrown_Error (js ''Error'') (js ''6:1 syntax error'')) [js ''Enter'']"
    by (simp add: trap_engine_def js_def)
  have n: "Number_toString 0 = js ''0''"
    by (simp add: Number_toString_def digits_of.simps js_def)
  have a: "runCProgram trap_engine (js ''ok'') [] =
     \<lparr>compiled = True,
      compileOutput = js ''Compilation/execution successful (exit code 0)'',
      stdout = js ''sum = 15'', stderr = []\<rparr>"
    using runCProgram_outcome[of trap_engine "js ''ok''" "[]"] 1 by (simp add: n) (simp add: js_def)
  have m: "js ''6:1 syntax error'' \<noteq> []" by (simp add: js_def)
  have b: "runCProgram trap_engine (js ''int'') [] =
     \<lparr>compiled = False, compileOutput = js ''6:1 syntax error'',
      stdout = js ''Enter'', stderr = js ''6:1 syntax error''\<rparr>"
    using runCProgram_outcome[of trap_engine "js ''int''" "[]"] 2 m by simp
  show ?thesis using a b by simp
qed

text \<open>
  Claim C7. The feedback is the compile-failure text when the first result has
  \<open>compilationFailed\<close>; else the congratulation when the score is 100; else the
  triggered hints joined by single spaces, the hints being checked independently and
  in order (a failed result whose note contains the wrong-sum mark, a failed validation
  test, no loop keyword, no positivity check); and with no hint, one of three texts by
  the score band: at least 80, at least 60, anything else.
\<close>

theorem generateFeedback_cases:
  "generateFeedback rs score src =
     (if rs \<noteq> [] \<and> compilationFailed (hd rs) then FEEDBACK_NOT_COMPILING
      else if score = Some 100 then FEEDBACK_EXCELLENT
      else if spec_hints rs src \<noteq> [] then space_separated (spec_hints rs src)
      else if \<exists>x. score = Some x \<and> 80 \<le> x then FEEDBACK_GOOD
      else if \<exists>x. score = Some x \<and> 60 \<le> x then FEEDBACK_PROGRESS
      else FEEDBACK_NEEDS_WORK)"
proof -
  have ge: "js_ge score n \<longleftrightarrow> (\<exists>x. score = Some x \<and> n \<le> x)" for n
    by (cases score) (auto simp: js_ge_def)
  show ?thesis
    unfolding generateFeedback_def first_failed_hd feedback_hints_spec join_space Let_def ge
    by simp
qed

theorem generateFeedback_cases_witness:
  "generateFeedback [] (Some 70) (js ''for if(x>0)'') = FEEDBACK_PROGRESS
   \<and> generateFeedback [crashed_result] (Some 0) [] = FEEDBACK_NOT_COMPILING
   \<and> generateFeedback [] (Some 20) [] = space_separated [HINT_LOOP, HINT_POSITIVE_CHECK]"
proof -
  have l: "hasLoop (js ''for if(x>0)'')" by (simp add: rx_eval)
  have p: "hasPositiveCheck (js ''for if(x>0)'')" by (simp add: rx_eval)
  have h: "spec_hints [] (js ''for if(x>0)'') = []" using l p by (simp add: spec_hints_def)
  have 1: "generateFeedback [] (Some 70) (js ''for if(x>0)'') = FEEDBACK_PROGRESS"
    using generateFeedback_cases[of "[]" "Some 70" "js ''for if(x>0)''"] h by simp
  have 2: "generateFeedback [crashed_result] (Some 0) [] = FEEDBACK_NOT_COMPILING"
    using generateFeedback_cases[of "[crashed_result]" "Some 0" "[]"]
    by (simp add: crashed_result_def)
  have nl: "\<not> hasLoop []" by (simp add: rx_eval)
  have np: "\<not> hasPositiveCheck []" by (simp add: rx_eval)
  have h3: "spec_hints [] [] = [HINT_LOOP, HINT_POSITIVE_CHECK]"
    using nl np by (simp add: spec_hints_def)
  have 3: "generateFeedback [] (Some 20) [] = space_separated [HINT_LOOP, HINT_POSITIVE_CHECK]"
    using generateFeedback_cases[of "[]" "Some 20" "[]"] h3 by simp
  show ?thesis using 1 2 3 by simp
qed

text \<open>
  Claim C8, as stated, fails: the source recognises only the comparisons \<open><= 0\<close>,
  \<open>< 1\<close> and \<open>> 0\<close>. A source whose conditional test compares with \<open>> 1\<close> contains a
  test of the kind the claim names, and still loses the 10 points and gets the hint.
\<close>

theorem positivity_deduction_counterexample:
  "guard_pattern claimed_comparisons (js ''for if (x > 1)'')
   \<and> \<not> hasPositiveCheck (js ''for if (x > 1)'')
   \<and> qualityScore (js ''for if (x > 1)'') = 10
   \<and> feedback_hints [] (js ''for if (x > 1)'') = [HINT_POSITIVE_CHECK]"
proof -
  have s: "js ''for if (x > 1)''
           = js ''for '' @ js ''if'' @ js '' '' @ js ''('' @ js ''x '' @ js ''>'' @ js '' ''
             @ js ''1'' @ js '')''"
    by (simp add: js_def)
  have c: "(js ''>'', js ''1'') \<in> claimed_comparisons"
    by (simp add: claimed_comparisons_def)
  have w: "js ''for '' = [] \<or> \<not> is_word (last (js ''for ''))"
    by (simp add: js_def is_word_def is_digit_def)
  have sp: "\<forall>c\<in>set (js '' ''). is_space c" by (simp add: js_def is_space_def)
  have b: "41 \<notin> set (js ''x '')" by (simp add: js_def)
  have g: "guard_pattern claimed_comparisons (js ''for if (x > 1)'')"
    unfolding guard_pattern_def
    by (rule exI[of _ "js ''for ''"], rule exI[of _ "js '' ''"], rule exI[of _ "js ''x ''"],
        rule exI[of _ "js ''>''"], rule exI[of _ "js '' ''"], rule exI[of _ "js ''1''"],
        rule exI[of _ "js '')''"], intro conjI, rule s, rule w, rule sp, rule b, rule sp, rule c)
  have l: "hasLoop (js ''for if (x > 1)'')" by (simp add: rx_eval)
  have p: "\<not> hasPositiveCheck (js ''for if (x > 1)'')" by (simp add: rx_eval)
  have q: "qualityScore (js ''for if (x > 1)'') = 10" using l p by (simp add: qualityScore_def)
  have h: "feedback_hints [] (js ''for if (x > 1)'') = [HINT_POSITIVE_CHECK]"
    using l p by (simp add: feedback_hints_def anyWrongSum_def failedValidation_def)
  show ?thesis using g p q h by simp
qed

text \<open>
  Claim C8, amended. The 10 points for the positivity check are taken off, and the hint
  about it is given, exactly when the source contains no conditional test that arrives
  at one of the comparisons \<open><= 0\<close>, \<open>< 1\<close> or \<open>> 0\<close>: the word \<open>if\<close>, optional white
  space, an opening parenthesis, any text without a closing parenthesis, the operator,
  optional white space and the digit. For every source that contains such a test
  nothing is taken off.
\<close>

theorem positivity_deduction:
  "(hasPositiveCheck src \<longleftrightarrow> guard_pattern code_comparisons src)
   \<and> qualityScore src
       = (if hasLoop src then 20 else 10) - (if guard_pattern code_comparisons src then 0 else 10)
   \<and> (HINT_POSITIVE_CHECK \<in> set (feedback_hints rs src)
        \<longleftrightarrow> \<not> guard_pattern code_comparisons src)"
proof -
  have q: "qualityScore src
       = (if hasLoop src then 20 else 10) - (if guard_pattern code_comparisons src then 0 else 10)"
    by (simp add: qualityScore_def Let_def hasPositiveCheck_pattern)
  have h: "HINT_POSITIVE_CHECK \<in> set (feedback_hints rs src)
        \<longleftrightarrow> \<not> guard_pattern code_comparisons src"
    by (simp add: feedback_hints_def Let_def hasPositiveCheck_pattern hints_distinct)
  show ?thesis using q h hasPositiveCheck_pattern by blast
qed

theorem positivity_deduction_witness:
  "guard_pattern code_comparisons (js ''for if (x > 0)'')
   \<and> qualityScore (js ''for if (x > 0)'') = 20
   \<and> HINT_POSITIVE_CHECK \<notin> set (feedback_hints [] (js ''for if (x > 0)''))
   \<and> \<not> guard_pattern code_comparisons (js ''for if (x > 1)'')
   \<and> qualityScore (js ''for if (x > 1)'') = 10"
proof -
  have l: "hasLoop (js ''for if (x > 0)'')" by (simp add: rx_eval)
  have p: "hasPositiveCheck (js ''for if (x > 0)'')" by (simp add: rx_eval)
  have l1: "hasLoop (js ''for if (x > 1)'')" by (simp add: rx_eval)
  have p1: "\<not> hasPositiveCheck (js ''for if (x > 1)'')" by (simp add: rx_eval)
  have a: "guard_pattern code_comparisons (js ''for if (x > 0)'')
           \<and> qualityScore (js ''for if (x > 0)'') = 20
           \<and> HINT_POSITIVE_CHECK \<notin> set (feedback_hints [] (js ''for if (x > 0)''))"
    using positivity_deduction[of "js ''for if (x > 0)''" "[]"] l p by simp
  have b: "\<not> guard_pattern code_comparisons (js ''for if (x > 1)'')
           \<and> qualityScore (js ''for if (x > 1)'') = 10"
    using positivity_deduction[of "js ''for if (x > 1)''" "[]"] l1 p1 by simp
  show ?thesis using a b by simp
qed

text \<open>
  Claim C9. The sum is absent exactly when the list of numbers is empty; a sum that is
  present is the last number of the list; the empty string, and any string without a
  digit, has no sum and no numbers.
\<close>

theorem extract_sum_invariant:
  "(sum' (extractSumFromOutput s) = None \<longleftrightarrow> allNumbers (extractSumFromOutput s) = [])
   \<and> (\<forall>x. sum' (extractSumFromOutput s) = Some x \<longrightarrow>
          allNumbers (extractSumFromOutput s) \<noteq> [] \<and> x = last (allNumbers (extractSumFromOutput s)))
   \<and> ((\<forall>c\<in>set s. \<not> is_digit c) \<longrightarrow>
          extractSumFromOutput s = \<lparr>sum' = None, allNumbers = []\<rparr>)"
proof (cases "number_scan s = []")
  case True
  then show ?thesis by (simp add: extract_unfold)
next
  case False
  then have "\<not> (\<forall>c\<in>set s. \<not> is_digit c)" using number_scan_Nil_iff by blast
  then show ?thesis using False by (simp add: extract_unfold last_map)
qed

theorem extract_sum_invariant_witness:
  "sum' (extractSumFromOutput (js ''sum = 10'')) = Some 10
   \<and> last (allNumbers (extractSumFromOutput (js ''sum = 10''))) = 10
   \<and> extractSumFromOutput (js ''no sum'') = \<lparr>sum' = None, allNumbers = []\<rparr>
   \<and> extractSumFromOutput [] = \<lparr>sum' = None, allNumbers = []\<rparr>"
proof -
  have 1: "sum' (extractSumFromOutput (js ''sum = 10'')) = Some 10"
    by (simp add: extract_eval)
  have 2: "\<forall>c\<in>set (js ''no sum''). \<not> is_digit c"
    by (simp add: js_def is_digit_def)
  have a: "last (allNumbers (extractSumFromOutput (js ''sum = 10''))) = 10"
    using extract_sum_invariant[of "js ''sum = 10''"] 1 by simp
  have b: "extractSumFromOutput (js ''no sum'') = \<lparr>sum' = None, allNumbers = []\<rparr>"
    using extract_sum_invariant[of "js ''no sum''"] 2 by simp
  have c: "extractSumFromOutput [] = \<lparr>sum' = None, allNumbers = []\<rparr>"
    using extract_sum_invariant[of "[]"] by simp
  show ?thesis using 1 a b c by simp
qed

text \<open>
  Claim C10. With no results at all the functional part is 0 (the division by the total
  is not reached), and the score is the quality part alone: an integer from 0 to 20,
  never an undefined number.
\<close>

theorem calculateScore_empty:
  "functionalScore [] = Some 0
   \<and> calculateScore [] codeSource = Some (qualityScore codeSource)
   \<and> (\<exists>n::int. 0 \<le> n \<and> n \<le> 20 \<and> calculateScore [] codeSource = Some (of_int n))"
proof -
  have f: "functionalScore [] = Some 0"
    by (simp add: functionalScore_def totalPoints_def)
  obtain n :: int where n: "qualityScore codeSource = of_int n" "0 \<le> n" "n \<le> 20"
  proof -
    have "qualityScore codeSource = of_int 0 \<or> qualityScore codeSource = of_int 10
          \<or> qualityScore codeSource = of_int 20"
      using qualityScore_cases[of codeSource] by simp
    then show ?thesis using that by fastforce
  qed
  have "calculateScore [] codeSource = Some (of_int (Math_round (max 0 (min 100 (of_int n)))))"
    by (simp add: calculateScore_def f n)
  then have c: "calculateScore [] codeSource = Some (of_int n)"
    using round_clamp_int[of n] n by simp
  show ?thesis using f c n by auto
qed


theorem calculateScore_empty_witness:
  "calculateScore [] (js ''while'') = Some 10"
proof -
  have "qualityScore (js ''while'') = 10"
    by (simp add: qualityScore_def rx_eval)
  then show ?thesis using calculateScore_empty[of "js ''while''"] by simp
qed


end
